theory Spec2Isabelle
  imports Complex_Main "HOL-Library.Log_Nat"
begin

section \<open>SpineAnimationView: data model\<close>

text \<open>
  The view of \<^verbatim>\<open>src/SpineAnimationView.js\<close> drives a skeletal animation engine
  (\<^verbatim>\<open>import .spine\<close>) and places one image per region attachment. The engine, the
  view framework and the JSON parser are not part of the source file; what the view asks
  of them is recorded here, and what they compute is a parameter (\<open>spine_env\<close>).
  JavaScript numbers are modelled as real numbers. An iteration count is a JavaScript
  number whose value is an integer; the decrement of the completion handler rounds as
  the doubles do (\<open>js_dec\<close>).
\<close>

subsection \<open>JavaScript values and truthiness\<close>

datatype json =
    JNull
  | JBool bool
  | JNum real
  | JStr string
  | JArr "json list"
  | JObj "(string \<times> json) list"

text \<open>\<^verbatim>\<open>if (jsonData)\<close>: null, false, 0 and the empty string are falsy.\<close>

fun truthy_json :: "json \<Rightarrow> bool" where
  "truthy_json JNull = False"
| "truthy_json (JBool b) = b"
| "truthy_json (JNum r) = (r \<noteq> 0)"
| "truthy_json (JStr s) = (s \<noteq> [])"
| "truthy_json (JArr xs) = True"
| "truthy_json (JObj kvs) = True"

text \<open>An option of the caller may be absent (\<open>None\<close>, JavaScript's undefined).\<close>

definition truthy_bool :: "bool option \<Rightarrow> bool" where
  "truthy_bool b = (case b of None \<Rightarrow> False | Some c \<Rightarrow> c)"

text \<open>A string option is truthy when it is present and not empty: \<open>Some\<close> of it then.\<close>

definition truthy_str :: "string option \<Rightarrow> string option" where
  "truthy_str s = (case s of None \<Rightarrow> None | Some t \<Rightarrow> if t = [] then None else Some t)"

text \<open>\<^verbatim>\<open>b || d\<close> for a boolean option and a boolean default.\<close>

definition or_bool :: "bool option \<Rightarrow> bool \<Rightarrow> bool" where
  "or_bool b d = (if truthy_bool b then True else d)"

text \<open>\<^verbatim>\<open>n || d\<close> for a number: undefined and 0 are falsy.\<close>

definition or_real :: "real option \<Rightarrow> real \<Rightarrow> real" where
  "or_real n d = (case n of None \<Rightarrow> d | Some r \<Rightarrow> if r = 0 then d else r)"

definition or_int :: "int option \<Rightarrow> int \<Rightarrow> int" where
  "or_int n d = (case n of None \<Rightarrow> d | Some r \<Rightarrow> if r = 0 then d else r)"

definition or_str :: "string option \<Rightarrow> string \<Rightarrow> string" where
  "or_str s d = (case truthy_str s of None \<Rightarrow> d | Some t \<Rightarrow> t)"

text \<open>
  A JavaScript number is an IEEE double. The doubles hold every integer of magnitude up
  to \<open>2 ^ 53\<close>; beyond, they hold the multiples of a power of two (53 significant bits),
  and an integer between two of them is rounded to the nearest, a tie to the one whose
  significand is even. \<open>to_double\<close> rounds an integer below \<open>2 ^ 1024\<close> in magnitude so;
  \<open>floorlog 2\<close> is the number of bits.
\<close>

definition to_double :: "int \<Rightarrow> int" where
  "to_double m =
     (if \<bar>m\<bar> \<le> 2 ^ 53 then m
      else (let u = 2 ^ (floorlog 2 (nat \<bar>m\<bar>) - 53); q = m div u; r = m mod u
            in if 2 * r < u then q * u
               else if u < 2 * r then (q + 1) * u
               else if even q then q * u else (q + 1) * u))"

text \<open>\<^verbatim>\<open>--n\<close> on a number whose value is an integer.\<close>

definition js_dec :: "int \<Rightarrow> int" where
  "js_dec n = to_double (n - 1)"

subsection \<open>Options\<close>

text \<open>The options of the view: \<^verbatim>\<open>this._opts\<close> and the argument of resetAllAnimations.\<close>

record config =
  spineData :: "json option"
  jsonText :: "string option"
  jsonFile :: "string option"
  imagePath :: "string option"
  animationScale :: "real option"
  defaultAnimation :: "string option"
  defaultMix :: "real option"
  cfg_frameRate :: "real option"
  loop :: "bool option"
  autoStart :: "bool option"

definition no_config :: config where
  "no_config = \<lparr> spineData = None, jsonText = None, jsonFile = None, imagePath = None,
     animationScale = None, defaultAnimation = None, defaultMix = None,
     cfg_frameRate = None, loop = None, autoStart = None \<rparr>"

definition pick :: "'a option \<Rightarrow> 'a option \<Rightarrow> 'a option" where
  "pick a b = (case a of None \<Rightarrow> b | Some x \<Rightarrow> Some x)"

text \<open>
  Modelled from the spec: \<^verbatim>\<open>merge\<close> is a global helper of the framework, missing from the
  source. The source's comment says the new options override the old parameters: every
  key of the first argument is kept, and a key it lacks is taken from the second.
\<close>

definition merge :: "config \<Rightarrow> config \<Rightarrow> config" where
  "merge a b = \<lparr> spineData = pick (spineData a) (spineData b),
     jsonText = pick (jsonText a) (jsonText b),
     jsonFile = pick (jsonFile a) (jsonFile b),
     imagePath = pick (imagePath a) (imagePath b),
     animationScale = pick (animationScale a) (animationScale b),
     defaultAnimation = pick (defaultAnimation a) (defaultAnimation b),
     defaultMix = pick (defaultMix a) (defaultMix b),
     cfg_frameRate = pick (cfg_frameRate a) (cfg_frameRate b),
     loop = pick (loop a) (loop b),
     autoStart = pick (autoStart a) (autoStart b) \<rparr>"

text \<open>
  The options of startAnimation. A callback is an opaque function of the caller: it is
  identified by a number, and calling it is recorded in the view's \<open>invoked\<close> log.
\<close>

record start_opts =
  opt_iterations :: "int option"
  opt_callback :: "nat option"
  opt_eventCallback :: "nat option"
  opt_loop :: "bool option"

text \<open>The object stored in \<^verbatim>\<open>this._currentAnimationOpts\<close>.\<close>

record request =
  iterations :: int
  callback :: "nat option"
  eventCallback :: "nat option"
  req_loop :: bool
  animationName :: string

datatype invocation = Completed nat | Event nat nat

subsection \<open>Skeleton, attachments and images\<close>

record bone =
  worldX :: real
  worldY :: real
  m00 :: real
  m01 :: real
  m10 :: real
  m11 :: real
  worldRotation :: real
  worldScaleX :: real
  worldScaleY :: real

text \<open>A region attachment; \<open>rendererObject\<close> is the address of its image.\<close>

record region =
  att_x :: real
  att_y :: real
  att_rotation :: real
  att_width :: real
  att_height :: real
  rendererObject :: nat

datatype attachment = RegionAttachment region | BoundingBoxAttachment

record slot =
  slot_bone :: bone
  slot_attachment :: "attachment option"

record skeleton =
  drawOrder :: "slot list"

text \<open>The style of an image view, and the file it shows.\<close>

record image =
  img_file :: string
  anchorX :: real
  anchorY :: real
  img_width :: real
  img_height :: real
  img_x :: real
  img_y :: real
  img_r :: real
  zIndex :: nat
  img_visible :: bool

text \<open>The skeleton data: the animations by name, with their durations.\<close>

record skeleton_data =
  animations :: "(string \<times> real) list"

definition findAnimation :: "skeleton_data \<Rightarrow> string \<Rightarrow> real option" where
  "findAnimation sd name = map_of (animations sd) name"

subsection \<open>The engine's animation state\<close>

text \<open>
  The animation state of the engine is a black box. The model keeps what the view told
  it: the calls, oldest first, the default mix the view stored in its data, and whether
  the view has registered its completion and event handlers on it.
\<close>

datatype engine_call =
    SetAnimation nat string bool
  | Update real
  | Apply

record anim_state =
  data_defaultMix :: real
  calls :: "engine_call list"
  handlers :: bool

text \<open>The animation armed on a track: the last setAnimationByName on it.\<close>

fun armed_in :: "nat \<Rightarrow> engine_call list \<Rightarrow> (string \<times> bool) option" where
  "armed_in t [] = None"
| "armed_in t (SetAnimation u n l # cs) =
     (case armed_in t cs of Some a \<Rightarrow> Some a
      | None \<Rightarrow> if u = t then Some (n, l) else None)"
| "armed_in t (c # cs) = armed_in t cs"

definition armed :: "anim_state \<Rightarrow> (string \<times> bool) option" where
  "armed st = armed_in 0 (calls st)"

text \<open>The engine's time: the sum of the deltas it was updated with.\<close>

fun time_of :: "engine_call list \<Rightarrow> real" where
  "time_of [] = 0"
| "time_of (Update d # cs) = d + time_of cs"
| "time_of (c # cs) = time_of cs"

definition engine_time :: "anim_state \<Rightarrow> real" where
  "engine_time st = time_of (calls st)"

subsection \<open>The view\<close>

text \<open>
  skeletonData, skeleton, state and rendererObjects are assigned together by
  resetAllAnimations and are undefined before: they form the \<open>context\<close> of the view.
\<close>

record skel_context =
  skeletonData :: skeleton_data
  the_skeleton :: skeleton
  state :: anim_state
  rendererObjects :: "nat list"

record view =
  opts :: config
  ctx :: "skel_context option"
  visible :: bool
  isPlaying :: bool
  isOnDefault :: bool
  currentAnimationOpts :: "request option"
  frameRate :: real
  images :: "nat \<Rightarrow> image"
  nextImage :: nat
  invoked :: "invocation list"

datatype error = AnimationNotFound string | TypeError | SyntaxError

text \<open>
  The result of an operation: the view after it, and the exception when one was thrown
  (the view then holds what was assigned before the throw).
\<close>

datatype outcome = Ok view | Raised error view

fun after :: "outcome \<Rightarrow> view" where
  "after (Ok v) = v"
| "after (Raised e v) = v"

text \<open>The animation armed on track 0 of the view's engine, if it has one.\<close>

definition armed_of :: "view \<Rightarrow> (string \<times> bool) option" where
  "armed_of v = (case ctx v of None \<Rightarrow> None | Some c \<Rightarrow> armed (state c))"

fun is_ok :: "outcome \<Rightarrow> bool" where
  "is_ok (Ok v) = True"
| "is_ok (Raised e v) = False"

text \<open>What the view needs from its environment.\<close>

record spine_env =
  JSON_parse :: "string \<Rightarrow> json option"
  CACHE :: "string \<Rightarrow> string option"
  regionPaths :: "json \<Rightarrow> string list"
  \<comment> \<open>the paths readSkeletonData passes to newRegionAttachment, in call order\<close>
  readSkeletonData :: "real option \<Rightarrow> json \<Rightarrow> nat list \<Rightarrow> skeleton_data"
  newSkeleton :: "skeleton_data \<Rightarrow> skeleton"
  applyPose :: "anim_state \<Rightarrow> skeleton \<Rightarrow> skeleton"
  updateWorldTransform :: "skeleton \<Rightarrow> skeleton"


section \<open>Playback controller\<close>

text \<open>
  Modelled from the spec: setAnimationByName belongs to the engine, missing from the
  source. It switches the track to the named animation with the given loop flag, and
  fails with AnimationNotFound (\<open>None\<close>) when the skeleton data has no such animation.
\<close>

definition setAnimationByName ::
  "skel_context \<Rightarrow> nat \<Rightarrow> string \<Rightarrow> bool \<Rightarrow> skel_context option" where
  "setAnimationByName c t name l =
     (case findAnimation (skeletonData c) name of
        None \<Rightarrow> None
      | Some d \<Rightarrow>
          Some (c\<lparr>state := (state c)\<lparr>calls := calls (state c) @ [SetAnimation t name l]\<rparr>\<rparr>))"

definition new_request :: "string \<Rightarrow> bool \<Rightarrow> start_opts option \<Rightarrow> request" where
  "new_request name l os =
     (case os of
        Some p \<Rightarrow> \<lparr> iterations = or_int (opt_iterations p) 1, callback = opt_callback p,
                    eventCallback = opt_eventCallback p, req_loop = l, animationName = name \<rparr>
      | None \<Rightarrow> \<lparr> iterations = 1, callback = None, eventCallback = None,
                  req_loop = False, animationName = name \<rparr>)"

definition startAnimation :: "string \<Rightarrow> start_opts option \<Rightarrow> view \<Rightarrow> outcome" where
  "startAnimation name os v =
     (let l = (case os of Some p \<Rightarrow> or_bool (opt_loop p) False | None \<Rightarrow> False) in
      case ctx v of
        None \<Rightarrow> Raised TypeError v
      | Some c \<Rightarrow>
          (case setAnimationByName c 0 name l of
             None \<Rightarrow> Raised (AnimationNotFound name) v
           | Some c' \<Rightarrow>
               Ok (v\<lparr>ctx := Some c', visible := True, isPlaying := True,
                      isOnDefault := False,
                      currentAnimationOpts := Some (new_request name l os)\<rparr>)))"

definition stopAnimation :: "view \<Rightarrow> view" where
  "stopAnimation v =
     v\<lparr>isOnDefault := True, visible := False, isPlaying := False,
       currentAnimationOpts := None\<rparr>"

definition resetAnimation :: "view \<Rightarrow> outcome" where
  "resetAnimation v =
     (case truthy_str (defaultAnimation (opts v)) of
        Some name \<Rightarrow>
          (case ctx v of
             None \<Rightarrow> Raised TypeError v
           | Some c \<Rightarrow>
               (case setAnimationByName c 0 name (or_bool (loop (opts v)) True) of
                  None \<Rightarrow> Raised (AnimationNotFound name) v
                | Some c' \<Rightarrow>
                    Ok (v\<lparr>ctx := Some c', visible := True, isPlaying := True,
                           isOnDefault := True, currentAnimationOpts := None\<rparr>)))
      | None \<Rightarrow> Ok (stopAnimation v))"

definition setFramerate :: "real option \<Rightarrow> view \<Rightarrow> view" where
  "setFramerate fps v = v\<lparr>frameRate := or_real fps 30\<rparr>"

definition pause :: "view \<Rightarrow> view" where
  "pause v = v\<lparr>isPlaying := False\<rparr>"

definition resume :: "view \<Rightarrow> view" where
  "resume v = v\<lparr>isPlaying := True\<rparr>"

text \<open>\<^verbatim>\<open>opts.callback && opts.callback()\<close>: the call is recorded when a callback is present.\<close>

definition call_callback :: "request \<Rightarrow> view \<Rightarrow> view" where
  "call_callback r v =
     (case callback r of None \<Rightarrow> v | Some cb \<Rightarrow> v\<lparr>invoked := invoked v @ [Completed cb]\<rparr>)"

text \<open>
  The completion handler, \<^verbatim>\<open>this.state.onComplete\<close>. The engine can invoke it only once it
  is registered on the current animation state.
\<close>

definition onComplete :: "view \<Rightarrow> outcome" where
  "onComplete v =
     (case ctx v of
        None \<Rightarrow> Ok v
      | Some c \<Rightarrow>
          if \<not> handlers (state c) then Ok v
          else if isOnDefault v then
            (if \<not> truthy_bool (loop (opts v)) then resetAnimation v else Ok v)
          else
            (case currentAnimationOpts v of
               None \<Rightarrow> Ok v
             | Some r \<Rightarrow>
                 if \<not> req_loop r then
                   (let r' = r\<lparr>iterations := js_dec (iterations r)\<rparr>;
                        v' = v\<lparr>currentAnimationOpts := Some r'\<rparr>
                    in if iterations r' \<le> 0 then resetAnimation (call_callback r' v')
                       else
                         (case setAnimationByName c 0 (animationName r') False of
                            None \<Rightarrow> Raised (AnimationNotFound (animationName r')) v'
                          | Some c' \<Rightarrow> Ok (v'\<lparr>ctx := Some c'\<rparr>)))
                 else Ok v))"

text \<open>The event handler, \<^verbatim>\<open>this.state.onEvent\<close>.\<close>

definition onEvent :: "nat \<Rightarrow> view \<Rightarrow> view" where
  "onEvent d v =
     (case ctx v of
        None \<Rightarrow> v
      | Some c \<Rightarrow>
          if \<not> handlers (state c) then v
          else if \<not> isOnDefault v then
            (case currentAnimationOpts v of
               None \<Rightarrow> v
             | Some r \<Rightarrow>
                 (case eventCallback r of
                    None \<Rightarrow> v
                  | Some cb \<Rightarrow> v\<lparr>invoked := invoked v @ [Event cb d]\<rparr>))
          else v)"

definition getDuration :: "view \<Rightarrow> string \<Rightarrow> error + real" where
  "getDuration v name =
     (case ctx v of
        None \<Rightarrow> Inl TypeError
      | Some c \<Rightarrow>
          (case findAnimation (skeletonData c) name of
             None \<Rightarrow> Inl (AnimationNotFound name)
           | Some d \<Rightarrow> Inr (d * 1000 * (30 / frameRate v))))"

section \<open>Presenter\<close>

text \<open>The first loop of \<^verbatim>\<open>_present\<close>: every image of rendererObjects is hidden.\<close>

fun hide_all :: "nat list \<Rightarrow> (nat \<Rightarrow> image) \<Rightarrow> (nat \<Rightarrow> image)" where
  "hide_all [] im = im"
| "hide_all (r # rs) im = hide_all rs (im(r := (im r)\<lparr>img_visible := False\<rparr>))"

text \<open>The body of the second loop, for the region attachment \<open>a\<close> at index \<open>i\<close>.\<close>

definition place :: "nat \<Rightarrow> bone \<Rightarrow> region \<Rightarrow> image \<Rightarrow> image" where
  "place i b a img =
     (let px = worldX b + att_x a * m00 b + att_y a * m01 b;
          py = worldY b + att_x a * m10 b + att_y a * m11 b;
          rotation = - (worldRotation b + att_rotation a) * (pi / 180);
          w = att_width a * worldScaleX b;
          h = att_height a * worldScaleY b;
          hw = w / 2;
          hh = h / 2
      in img\<lparr>anchorX := hw, anchorY := hh, img_width := w, img_height := h,
             img_x := px - hw, img_y := py - hh, img_r := rotation,
             zIndex := i, img_visible := True\<rparr>)"

text \<open>\<^verbatim>\<open>attachment instanceof spine.RegionAttachment\<close>\<close>

definition region_of :: "slot \<Rightarrow> region option" where
  "region_of s =
     (case slot_attachment s of
        Some (RegionAttachment a) \<Rightarrow> Some a
      | Some BoundingBoxAttachment \<Rightarrow> None
      | None \<Rightarrow> None)"

text \<open>The slot holds a region attachment whose image is at address \<open>r\<close>.\<close>

definition shows_image :: "nat \<Rightarrow> slot \<Rightarrow> bool" where
  "shows_image r s = (case region_of s of None \<Rightarrow> False | Some a \<Rightarrow> rendererObject a = r)"

definition show_slot :: "nat \<Rightarrow> slot \<Rightarrow> (nat \<Rightarrow> image) \<Rightarrow> (nat \<Rightarrow> image)" where
  "show_slot i s im =
     (case region_of s of
        None \<Rightarrow> im
      | Some a \<Rightarrow> im(rendererObject a := place i (slot_bone s) a (im (rendererObject a))))"

text \<open>The second loop, from index \<open>i\<close> on.\<close>

fun show_slots :: "nat \<Rightarrow> slot list \<Rightarrow> (nat \<Rightarrow> image) \<Rightarrow> (nat \<Rightarrow> image)" where
  "show_slots i [] im = im"
| "show_slots i (s # ss) im = show_slots (Suc i) ss (show_slot i s im)"

definition present :: "spine_env \<Rightarrow> view \<Rightarrow> outcome" where
  "present env v =
     (case ctx v of
        None \<Rightarrow> Raised TypeError v
      | Some c \<Rightarrow>
          (let sk = updateWorldTransform env (the_skeleton c)
           in Ok (v\<lparr>ctx := Some (c\<lparr>the_skeleton := sk\<rparr>),
                    images := show_slots 0 (drawOrder sk)
                                (hide_all (rendererObjects c) (images v))\<rparr>)))"

text \<open>
  Modelled from the spec: \<^verbatim>\<open>state.update\<close> and \<^verbatim>\<open>state.apply\<close> belong to the engine. update
  advances the engine's time by its argument; apply poses the skeleton, by the
  environment's \<open>applyPose\<close>. The notifications the engine sends are the separate steps
  \<open>onComplete\<close> and \<open>onEvent\<close>.
\<close>

definition update :: "real \<Rightarrow> skel_context \<Rightarrow> skel_context" where
  "update d c = c\<lparr>state := (state c)\<lparr>calls := calls (state c) @ [Update d]\<rparr>\<rparr>"

definition apply_state :: "spine_env \<Rightarrow> skel_context \<Rightarrow> skel_context" where
  "apply_state env c =
     c\<lparr>state := (state c)\<lparr>calls := calls (state c) @ [Apply]\<rparr>,
       the_skeleton := applyPose env (state c) (the_skeleton c)\<rparr>"

definition tick :: "spine_env \<Rightarrow> real \<Rightarrow> view \<Rightarrow> outcome" where
  "tick env dt v =
     (case ctx v of
        None \<Rightarrow> Raised TypeError v
      | Some c \<Rightarrow>
          present env
            (if isPlaying v \<and> visible v
             then v\<lparr>ctx := Some (apply_state env (update (dt * (0.001 * 30 / frameRate v)) c))\<rparr>
             else v))"

section \<open>Initialisation\<close>

text \<open>
  The animation source: spineData, else the parsed jsonText, else the parsed cache entry
  of jsonFile. JSON.parse throws a SyntaxError on text that is not JSON, and on the
  undefined value a missing cache entry gives.
\<close>

definition jsonData :: "spine_env \<Rightarrow> config \<Rightarrow> error + json" where
  "jsonData env os =
     (case (case spineData os of Some j \<Rightarrow> if truthy_json j then Some j else None
            | None \<Rightarrow> None) of
        Some j \<Rightarrow> Inr j
      | None \<Rightarrow>
          (case (case truthy_str (jsonText os) of
                   Some t \<Rightarrow> Some t
                 | None \<Rightarrow> (case jsonFile os of None \<Rightarrow> None | Some f \<Rightarrow> CACHE env f)) of
             None \<Rightarrow> Inl SyntaxError
           | Some t \<Rightarrow> (case JSON_parse env t of None \<Rightarrow> Inl SyntaxError | Some j \<Rightarrow> Inr j)))"

text \<open>\<^verbatim>\<open>new ImageView\<close> of the attachment loader: hidden, showing the file of the path.\<close>

definition new_image :: "string \<Rightarrow> image" where
  "new_image file = \<lparr> img_file = file, anchorX = 0, anchorY = 0, img_width = 0,
     img_height = 0, img_x = 0, img_y = 0, img_r = 0, zIndex = 0, img_visible = False \<rparr>"

fun create_images :: "string \<Rightarrow> nat \<Rightarrow> string list \<Rightarrow> (nat \<Rightarrow> image) \<Rightarrow> (nat \<Rightarrow> image)" where
  "create_images prefix n [] im = im"
| "create_images prefix n (p # ps) im =
     create_images prefix (Suc n) ps (im(n := new_image (prefix @ p @ ''.png'')))"

text \<open>The assignments that end a successful resetAllAnimations.\<close>

definition finish_reset :: "config \<Rightarrow> skel_context \<Rightarrow> view \<Rightarrow> view" where
  "finish_reset os c v =
     v\<lparr>currentAnimationOpts := None, isOnDefault := True,
       isPlaying := or_bool (autoStart os) False,
       frameRate := or_real (cfg_frameRate os) 30,
       ctx := Some (c\<lparr>state := (state c)\<lparr>handlers := True\<rparr>\<rparr>)\<rparr>"

text \<open>The body of resetAllAnimations, for the merged options \<open>os\<close>.\<close>

definition reset_with :: "spine_env \<Rightarrow> config \<Rightarrow> view \<Rightarrow> outcome" where
  "reset_with env os v =
     (case jsonData env os of
        Inl e \<Rightarrow> Raised e v
      | Inr j \<Rightarrow>
          if truthy_json j then
            (let prefix = or_str (imagePath os) [] @ ''/'';
                 paths = regionPaths env j;
                 ids = [nextImage v ..< nextImage v + length paths];
                 sd = readSkeletonData env (animationScale os) j ids;
                 c = \<lparr> skeletonData = sd, the_skeleton = newSkeleton env sd,
                       state = \<lparr> data_defaultMix = or_real (defaultMix os) 0.4,
                                 calls = [], handlers = False \<rparr>,
                       rendererObjects = ids \<rparr>;
                 v' = v\<lparr>ctx := Some c,
                        images := create_images prefix (nextImage v) paths (images v),
                        nextImage := nextImage v + length paths\<rparr>
             in case truthy_str (defaultAnimation os) of
                  Some name \<Rightarrow>
                    (case setAnimationByName c 0 name (or_bool (loop os) True) of
                       None \<Rightarrow> Raised (AnimationNotFound name) v'
                     | Some c' \<Rightarrow> Ok (finish_reset os c' v'))
                | None \<Rightarrow> Ok (finish_reset os c v'))
          else Ok v)"

text \<open>\<^verbatim>\<open>merge(newOpts || {}, this._opts)\<close>\<close>

definition merged :: "config option \<Rightarrow> view \<Rightarrow> config" where
  "merged newOpts v = merge (case newOpts of None \<Rightarrow> no_config | Some n \<Rightarrow> n) (opts v)"

definition resetAllAnimations :: "spine_env \<Rightarrow> config option \<Rightarrow> view \<Rightarrow> outcome" where
  "resetAllAnimations env newOpts v = reset_with env (merged newOpts v) v"

text \<open>
  The constructor: the framework stores the options in \<^verbatim>\<open>this._opts\<close>, then
  resetAllAnimations runs without an argument. \<open>blank\<close> is the view before it: no
  context, nothing playing, no request, and the visibility the framework gave it. Its
  frame rate is not yet assigned, and 30 stands for it: getDuration and tick throw on
  a view without context before they read it. (Should resetAllAnimations throw after it
  has built the context, the source would go on with an undefined frame rate and compute
  NaN, which real numbers do not represent.)
\<close>

definition blank :: "config \<Rightarrow> bool \<Rightarrow> view" where
  "blank os vis = \<lparr> opts = os, ctx = None, visible = vis, isPlaying = False,
     isOnDefault = False, currentAnimationOpts = None, frameRate = 30,
     images = (\<lambda>n. new_image []), nextImage = 0, invoked = [] \<rparr>"

definition init :: "spine_env \<Rightarrow> config \<Rightarrow> bool \<Rightarrow> outcome" where
  "init env os vis = resetAllAnimations env None (blank os vis)"

section \<open>Runs\<close>

text \<open>The calls a view receives: its public operations and the engine's notifications.\<close>

datatype op =
    StartAnimation string "start_opts option"
  | StopAnimation
  | ResetAnimation
  | SetFramerate "real option"
  | Pause
  | Resume
  | ResetAllAnimations "config option"
  | OnComplete
  | OnEvent nat
  | Tick real

fun step :: "spine_env \<Rightarrow> op \<Rightarrow> view \<Rightarrow> outcome" where
  "step env (StartAnimation name os) v = startAnimation name os v"
| "step env StopAnimation v = Ok (stopAnimation v)"
| "step env ResetAnimation v = resetAnimation v"
| "step env (SetFramerate fps) v = Ok (setFramerate fps v)"
| "step env Pause v = Ok (pause v)"
| "step env Resume v = Ok (resume v)"
| "step env (ResetAllAnimations newOpts) v = resetAllAnimations env newOpts v"
| "step env OnComplete v = onComplete v"
| "step env (OnEvent d) v = Ok (onEvent d v)"
| "step env (Tick dt) v = tick env dt v"

text \<open>
  A run of calls. A call that throws leaves the view as it was at the throw; the host
  goes on with the next call.
\<close>

fun run :: "spine_env \<Rightarrow> op list \<Rightarrow> view \<Rightarrow> view" where
  "run env [] v = v"
| "run env (x # xs) v = run env xs (after (step env x v))"

text \<open>\<open>n\<close> completions in a row, up to the first that throws.\<close>

fun completions :: "nat \<Rightarrow> view \<Rightarrow> outcome" where
  "completions 0 v = Ok v"
| "completions (Suc n) v =
     (case onComplete v of Ok v' \<Rightarrow> completions n v' | Raised e v' \<Rightarrow> Raised e v')"

section \<open>Playback states\<close>

text \<open>
  The invariant of the playback state: a transient request is stored only while the view
  is not on its default.
\<close>

definition request_only_transient :: "view \<Rightarrow> bool" where
  "request_only_transient v = (currentAnimationOpts v \<noteq> None \<longrightarrow> \<not> isOnDefault v)"

text \<open>
  The three states, read off the fields: a transient request is active when one is
  stored; the view is on its default and plays, or is on its default and does not.
\<close>

definition transient_request :: "view \<Rightarrow> bool" where
  "transient_request v = (currentAnimationOpts v \<noteq> None)"

definition default_animation :: "view \<Rightarrow> bool" where
  "default_animation v = (isOnDefault v \<and> isPlaying v)"

definition no_animation :: "view \<Rightarrow> bool" where
  "no_animation v = (isOnDefault v \<and> \<not> isPlaying v)"

text \<open>The stored request carries the completion callback \<open>cb\<close>.\<close>

definition carries :: "nat \<Rightarrow> view \<Rightarrow> bool" where
  "carries cb v =
     (case currentAnimationOpts v of None \<Rightarrow> False | Some r \<Rightarrow> callback r = Some cb)"

text \<open>The call hands the completion callback \<open>cb\<close> to the view.\<close>

fun uses_callback :: "nat \<Rightarrow> op \<Rightarrow> bool" where
  "uses_callback cb (StartAnimation name (Some p)) = (opt_callback p = Some cb)"
| "uses_callback cb x = False"

text \<open>The log entries of a completion callback that may be absent.\<close>

definition callbacks_of :: "nat option \<Rightarrow> invocation list" where
  "callbacks_of cb = (case cb of None \<Rightarrow> [] | Some f \<Rightarrow> [Completed f])"

section \<open>An example environment and view\<close>

text \<open>
  A skeleton with three animations and two region attachments (images 0 and 1 of a new
  view). Its draw order holds a bounding box, then the region of image 0 on a bone at
  (100, 50) with no rotation and scale (1, 1), then an empty slot.
\<close>

definition demo_bone :: bone where
  "demo_bone = \<lparr> worldX = 100, worldY = 50, m00 = 1, m01 = 0, m10 = 0, m11 = 1,
     worldRotation = 0, worldScaleX = 1, worldScaleY = 1 \<rparr>"

definition demo_region :: region where
  "demo_region = \<lparr> att_x = 0, att_y = 0, att_rotation = 0, att_width = 40,
     att_height = 60, rendererObject = 0 \<rparr>"

definition demo_skeleton :: skeleton where
  "demo_skeleton = \<lparr> drawOrder =
     [\<lparr> slot_bone = demo_bone, slot_attachment = Some BoundingBoxAttachment \<rparr>,
      \<lparr> slot_bone = demo_bone, slot_attachment = Some (RegionAttachment demo_region) \<rparr>,
      \<lparr> slot_bone = demo_bone, slot_attachment = None \<rparr>] \<rparr>"

definition demo_data :: skeleton_data where
  "demo_data = \<lparr> animations = [(''idle'', 3 / 2), (''jump'', 1 / 2), (''blink'', 1 / 16)] \<rparr>"

definition demo_env :: spine_env where
  "demo_env = \<lparr> JSON_parse = (\<lambda>t. if t = ''null'' then Some JNull else None),
     CACHE = (\<lambda>f. None),
     regionPaths = (\<lambda>j. [''head'', ''body'']),
     readSkeletonData = (\<lambda>sc j ids. demo_data),
     newSkeleton = (\<lambda>sd. demo_skeleton),
     applyPose = (\<lambda>st sk. sk),
     updateWorldTransform = (\<lambda>sk. sk) \<rparr>"

text \<open>The configuration of the spec's scenario: default animation idle, loop, autoStart.\<close>

definition demo_config :: config where
  "demo_config = no_config\<lparr>spineData := Some (JObj []), defaultAnimation := Some ''idle'',
     loop := Some True, autoStart := Some True\<rparr>"

definition demo_images :: "nat \<Rightarrow> image" where
  "demo_images = (\<lambda>n. new_image [])(0 := new_image ''/head.png'', 1 := new_image ''/body.png'')"

definition demo_context :: skel_context where
  "demo_context = \<lparr> skeletonData = demo_data, the_skeleton = demo_skeleton,
     state = \<lparr> data_defaultMix = 0.4, calls = [SetAnimation 0 ''idle'' True],
               handlers = True \<rparr>,
     rendererObjects = [0, 1] \<rparr>"

text \<open>The view that the constructor leaves with \<open>demo_config\<close> (see \<open>init_demo\<close>).\<close>

definition demo_view :: view where
  "demo_view = \<lparr> opts = demo_config, ctx = Some demo_context, visible = True,
     isPlaying = True, isOnDefault = True, currentAnimationOpts = None, frameRate = 30,
     images = demo_images, nextImage = 2, invoked = [] \<rparr>"

text \<open>The example view after a presentation pass, and after a tick of 16 ms.\<close>

definition demo_presented :: view where
  "demo_presented = after (present demo_env demo_view)"

definition demo_ticked :: view where
  "demo_ticked = after (tick demo_env 16 demo_view)"

text \<open>Options without a default animation and without autoStart.\<close>

definition quiet_config :: config where
  "quiet_config = no_config\<lparr>spineData := Some (JObj [])\<rparr>"

text \<open>Options whose default animation is configured not to loop.\<close>

definition nonloop_config :: config where
  "nonloop_config = no_config\<lparr>spineData := Some (JObj []),
     defaultAnimation := Some ''idle'', loop := Some False\<rparr>"

text \<open>A view built hidden with \<open>quiet_config\<close>, then playing the animation jump.\<close>

definition busy_view :: view where
  "busy_view = after (startAnimation ''jump'' None (after (init demo_env quiet_config False)))"

text \<open>A request for two iterations of an animation, with completion callback 7.\<close>

definition twice :: start_opts where
  "twice = \<lparr> opt_iterations = Some 2, opt_callback = Some 7, opt_eventCallback = None,
     opt_loop = None \<rparr>"

text \<open>A request for 2^54 iterations.\<close>

definition huge :: start_opts where
  "huge = \<lparr> opt_iterations = Some 18014398509481984, opt_callback = Some 7,
     opt_eventCallback = None, opt_loop = None \<rparr>"

text \<open>
  An environment with two skeletons: the source \<^verbatim>\<open>[]\<close> holds the animation jump alone,
  any other source is the example skeleton. \<open>swapped_view\<close> is built with \<open>demo_config\<close>
  and then rebuilt from \<^verbatim>\<open>[]\<close> with jump as its default animation; the construction
  options still name idle.
\<close>

definition swap_data :: skeleton_data where
  "swap_data = \<lparr> animations = [(''jump'', 1 / 2)] \<rparr>"

definition swap_env :: spine_env where
  "swap_env = demo_env\<lparr>readSkeletonData :=
     (\<lambda>sc j ids. case j of JArr xs \<Rightarrow> swap_data | _ \<Rightarrow> demo_data)\<rparr>"

definition swap_opts :: config where
  "swap_opts = no_config\<lparr>spineData := Some (JArr []), defaultAnimation := Some ''jump''\<rparr>"

definition swapped_view :: view where
  "swapped_view =
     run swap_env [ResetAllAnimations None, ResetAllAnimations (Some swap_opts)]
       (blank demo_config True)"

section \<open>Evaluation\<close>

lemmas js_defs = truthy_str_def truthy_bool_def or_bool_def or_real_def or_int_def
  or_str_def pick_def

lemmas demo_defs = demo_env_def demo_config_def demo_data_def demo_skeleton_def
  demo_bone_def demo_region_def demo_images_def demo_context_def demo_view_def no_config_def

lemmas init_defs = init_def blank_def resetAllAnimations_def merged_def reset_with_def
  merge_def jsonData_def setAnimationByName_def findAnimation_def finish_reset_def

lemmas play_defs = startAnimation_def stopAnimation_def resetAnimation_def onComplete_def
  onEvent_def call_callback_def new_request_def setAnimationByName_def findAnimation_def
  pause_def resume_def setFramerate_def js_dec_def to_double_def

lemma init_demo: "init demo_env demo_config True = Ok demo_view"
  by (simp add: init_defs js_defs demo_defs)

lemma demo_ctx: "ctx demo_view = Some demo_context"
  by (simp add: demo_view_def)

section \<open>getDuration\<close>

lemma getDuration_absent:
  assumes c: "ctx v = Some c"
  shows "(getDuration v name = Inl (AnimationNotFound name)) =
           (name \<notin> fst ` set (animations (skeletonData c)))"
proof (cases "map_of (animations (skeletonData c)) name")
  case None
  then have "name \<notin> fst ` set (animations (skeletonData c))"
    by (simp add: map_of_eq_None_iff)
  with c None show ?thesis
    by (simp add: getDuration_def findAnimation_def)
next
  case (Some d)
  then have "(name, d) \<in> set (animations (skeletonData c))"
    by (rule map_of_SomeD)
  then have "name \<in> fst ` set (animations (skeletonData c))"
    by force
  with c Some show ?thesis
    by (simp add: getDuration_def findAnimation_def)
qed

lemma getDuration_present:
  assumes c: "ctx v = Some c"
    and n: "name \<in> fst ` set (animations (skeletonData c))"
  shows "\<exists>d. (name, d) \<in> set (animations (skeletonData c)) \<and>
             getDuration v name = Inr (d * 1000 * (30 / frameRate v))"
proof -
  from n have "map_of (animations (skeletonData c)) name \<noteq> None"
    by (simp add: map_of_eq_None_iff)
  then obtain d where d: "map_of (animations (skeletonData c)) name = Some d"
    by blast
  then have "(name, d) \<in> set (animations (skeletonData c))"
    by (rule map_of_SomeD)
  moreover from c d have "getDuration v name = Inr (d * 1000 * (30 / frameRate v))"
    by (simp add: getDuration_def findAnimation_def)
  ultimately show ?thesis by blast
qed

text \<open>
  C5, as stated, fails: getDuration does not round. An animation of 1/16 second at frame
  rate 30 has a duration of 62.5 milliseconds, which is not a whole number.
\<close>

theorem getDuration_whole_number_counterexample:
  "getDuration demo_view ''blink'' = Inr (125 / 2) \<and>
   real_of_int \<lfloor>125 / 2 :: real\<rfloor> \<noteq> 125 / 2"
  by (simp add: getDuration_def findAnimation_def demo_defs)

text \<open>
  C5, amended: on an initialised view, getDuration(name) fails with AnimationNotFound
  exactly when the skeleton data has no animation of that name; otherwise it returns
  duration * 1000 * (30 / frameRate) for an animation of that name, as it is, without
  rounding. A duration of 1.5 seconds at frame rate 30 gives 1500.
\<close>

theorem getDuration_unrounded:
  assumes c: "ctx v = Some c"
  shows "((getDuration v name = Inl (AnimationNotFound name)) =
            (name \<notin> fst ` set (animations (skeletonData c)))) \<and>
         (name \<in> fst ` set (animations (skeletonData c)) \<longrightarrow>
            (\<exists>d. (name, d) \<in> set (animations (skeletonData c)) \<and>
                 getDuration v name = Inr (d * 1000 * (30 / frameRate v)))) \<and>
         (findAnimation (skeletonData c) name = Some (3 / 2) \<and> frameRate v = 30 \<longrightarrow>
            getDuration v name = Inr 1500)"
proof (intro conjI impI)
  show "(getDuration v name = Inl (AnimationNotFound name)) =
            (name \<notin> fst ` set (animations (skeletonData c)))"
    using c by (rule getDuration_absent)
next
  assume "name \<in> fst ` set (animations (skeletonData c))"
  with c show "\<exists>d. (name, d) \<in> set (animations (skeletonData c)) \<and>
                 getDuration v name = Inr (d * 1000 * (30 / frameRate v))"
    by (rule getDuration_present)
next
  assume "findAnimation (skeletonData c) name = Some (3 / 2) \<and> frameRate v = 30"
  with c show "getDuration v name = Inr 1500"
    by (simp add: getDuration_def)
qed

theorem getDuration_unrounded_witness:
  "ctx demo_view = Some demo_context \<and>
   ''idle'' \<in> fst ` set (animations (skeletonData demo_context)) \<and>
   findAnimation (skeletonData demo_context) ''idle'' = Some (3 / 2) \<and>
   frameRate demo_view = 30 \<and>
   getDuration demo_view ''idle'' = Inr 1500 \<and>
   ''missing'' \<notin> fst ` set (animations (skeletonData demo_context)) \<and>
   getDuration demo_view ''missing'' = Inl (AnimationNotFound ''missing'')"
  using getDuration_unrounded [OF demo_ctx, of "''idle''"]
    getDuration_unrounded [OF demo_ctx, of "''missing''"]
  by (simp add: findAnimation_def demo_defs)

section \<open>The presentation pass\<close>

lemma hide_all_other: "r \<notin> set rs \<Longrightarrow> hide_all rs im r = im r"
  by (induction rs arbitrary: im) auto

lemma hide_all_hidden: "r \<in> set rs \<Longrightarrow> \<not> img_visible (hide_all rs im r)"
proof (induction rs arbitrary: im)
  case Nil
  then show ?case by simp
next
  case (Cons x xs)
  show ?case
  proof (cases "r \<in> set xs")
    case True
    then show ?thesis using Cons.IH by simp
  next
    case False
    with Cons.prems have "r = x" by simp
    with False show ?thesis by (simp add: hide_all_other)
  qed
qed

lemma show_slot_other: "\<not> shows_image r s \<Longrightarrow> show_slot i s im r = im r"
  by (auto simp: show_slot_def shows_image_def split: option.splits)

lemma show_slot_placed:
  "region_of s = Some a \<Longrightarrow> show_slot i s im (rendererObject a) = place i (slot_bone s) a (im (rendererObject a))"
  by (simp add: show_slot_def)

lemma show_slot_visible:
  "img_visible (show_slot i s im r) = (img_visible (im r) \<or> shows_image r s)"
  by (auto simp: show_slot_def shows_image_def place_def Let_def split: option.splits)

lemma show_slots_other:
  "\<forall>s \<in> set ss. \<not> shows_image r s \<Longrightarrow> show_slots i ss im r = im r"
  by (induction ss arbitrary: i im) (auto simp: show_slot_other)

lemma show_slots_visible:
  "img_visible (show_slots i ss im r) = (img_visible (im r) \<or> (\<exists>s \<in> set ss. shows_image r s))"
  by (induction ss arbitrary: i im) (auto simp: show_slot_visible)

lemma show_slots_append:
  "show_slots i (ss @ ts) im = show_slots (i + length ss) ts (show_slots i ss im)"
  by (induction ss arbitrary: i im) auto

lemma show_slots_last:
  assumes j: "j < length ss"
    and a: "region_of (ss ! j) = Some a"
    and last: "\<forall>k. j < k \<and> k < length ss \<longrightarrow> \<not> shows_image (rendererObject a) (ss ! k)"
  shows "\<exists>img. show_slots i ss im (rendererObject a) = place (i + j) (slot_bone (ss ! j)) a img"
proof -
  let ?r = "rendererObject a"
  let ?pre = "take j ss" and ?post = "drop (Suc j) ss"
  from j have split: "ss = ?pre @ (ss ! j # ?post)"
    by (simp add: id_take_nth_drop)
  have post: "\<forall>s \<in> set ?post. \<not> shows_image ?r s"
  proof
    fix s assume "s \<in> set ?post"
    then obtain n where n: "n < length ?post" "s = ?post ! n"
      by (auto simp: in_set_conv_nth)
    with j last show "\<not> shows_image ?r s" by simp
  qed
  have "show_slots i ss im = show_slots (i + j) (ss ! j # ?post) (show_slots i ?pre im)"
    using j by (subst split, subst show_slots_append) simp
  then have "show_slots i ss im ?r = show_slot (i + j) (ss ! j) (show_slots i ?pre im) ?r"
    using post by (simp add: show_slots_other)
  with a show ?thesis by (auto simp: show_slot_placed)
qed

lemma present_Ok:
  "present env v = Ok v' \<Longrightarrow>
   \<exists>c. ctx v = Some c \<and>
       ctx v' = Some (c\<lparr>the_skeleton := updateWorldTransform env (the_skeleton c)\<rparr>) \<and>
       images v' = show_slots 0 (drawOrder (updateWorldTransform env (the_skeleton c)))
                     (hide_all (rendererObjects c) (images v))"
  by (auto simp: present_def Let_def split: option.splits)

lemma tick_present:
  "tick env dt v = Ok v' \<Longrightarrow> \<exists>w. present env w = Ok v'"
  by (auto simp: tick_def split: option.splits if_splits)

lemma pass_images:
  assumes "present env v = Ok v' \<or> tick env dt v = Ok v'"
    and c': "ctx v' = Some c'"
  shows "\<exists>im. images v' = show_slots 0 (drawOrder (the_skeleton c')) (hide_all (rendererObjects c') im)"
proof -
  from assms(1) obtain w where "present env w = Ok v'"
    using tick_present by blast
  from present_Ok [OF this] c' show ?thesis by auto
qed

text \<open>
  C3: for a region attachment in the draw order, a presentation pass sets its image's
  size to (width * worldScaleX, height * worldScaleY), its rotation to
  -(worldRotation + rotation) * pi / 180, its anchor to half the size, and its position
  to the bone-transformed world position minus half the size. The values are those of
  the last entry that holds the image; each region attachment has an image of its own
  from the attachment loader. The spec's scenario is checked on the example view: a bone
  at (100, 50) and an attachment of size (40, 60) give an image at (80, 20) of size
  40 by 60, rotation 0.
\<close>

theorem present_places_region:
  assumes pass: "present env v = Ok v' \<or> tick env dt v = Ok v'"
    and c': "ctx v' = Some c'"
    and j: "j < length (drawOrder (the_skeleton c'))"
    and s: "drawOrder (the_skeleton c') ! j = s"
    and a: "region_of s = Some a"
    and b: "slot_bone s = b"
    and last: "\<forall>k. j < k \<and> k < length (drawOrder (the_skeleton c')) \<longrightarrow>
                 \<not> shows_image (rendererObject a) (drawOrder (the_skeleton c') ! k)"
  shows "img_width (images v' (rendererObject a)) = att_width a * worldScaleX b \<and>
         img_height (images v' (rendererObject a)) = att_height a * worldScaleY b \<and>
         img_r (images v' (rendererObject a)) = - (worldRotation b + att_rotation a) * (pi / 180) \<and>
         anchorX (images v' (rendererObject a)) = att_width a * worldScaleX b / 2 \<and>
         anchorY (images v' (rendererObject a)) = att_height a * worldScaleY b / 2 \<and>
         img_x (images v' (rendererObject a)) =
           worldX b + att_x a * m00 b + att_y a * m01 b - att_width a * worldScaleX b / 2 \<and>
         img_y (images v' (rendererObject a)) =
           worldY b + att_x a * m10 b + att_y a * m11 b - att_height a * worldScaleY b / 2"
proof -
  from pass_images [OF pass c'] obtain im where
    im: "images v' = show_slots 0 (drawOrder (the_skeleton c')) (hide_all (rendererObjects c') im)"
    by blast
  from a s have a': "region_of (drawOrder (the_skeleton c') ! j) = Some a" by simp
  from show_slots_last [OF j a' last] obtain img where
    "show_slots 0 (drawOrder (the_skeleton c')) (hide_all (rendererObjects c') im) (rendererObject a)
       = place (0 + j) (slot_bone (drawOrder (the_skeleton c') ! j)) a img"
    by blast
  with im s b have "images v' (rendererObject a) = place j b a img" by simp
  then show ?thesis by (simp add: place_def Let_def)
qed


lemma present_demo: "present demo_env demo_view = Ok demo_presented"
  by (simp add: demo_presented_def present_def Let_def demo_view_def)

lemma demo_presented_ctx: "ctx demo_presented = Some demo_context"
  by (simp add: demo_presented_def present_def Let_def demo_view_def demo_env_def demo_context_def)

lemma demo_order:
  "drawOrder (the_skeleton demo_context) =
     [\<lparr> slot_bone = demo_bone, slot_attachment = Some BoundingBoxAttachment \<rparr>,
      \<lparr> slot_bone = demo_bone, slot_attachment = Some (RegionAttachment demo_region) \<rparr>,
      \<lparr> slot_bone = demo_bone, slot_attachment = None \<rparr>]"
  by (simp add: demo_context_def demo_skeleton_def)

lemma demo_last:
  "\<forall>k. 1 < k \<and> k < length (drawOrder (the_skeleton demo_context)) \<longrightarrow>
       \<not> shows_image r (drawOrder (the_skeleton demo_context) ! k)"
proof (intro allI impI)
  fix k :: nat
  assume "1 < k \<and> k < length (drawOrder (the_skeleton demo_context))"
  then have "k = 2" by (simp add: demo_order)
  then show "\<not> shows_image r (drawOrder (the_skeleton demo_context) ! k)"
    by (simp add: demo_order shows_image_def region_of_def)
qed

theorem present_places_region_witness:
  "present demo_env demo_view = Ok demo_presented \<and>
   ctx demo_presented = Some demo_context \<and>
   region_of (drawOrder (the_skeleton demo_context) ! 1) = Some demo_region \<and>
   slot_bone (drawOrder (the_skeleton demo_context) ! 1) = demo_bone \<and>
   img_x (images demo_presented 0) = 80 \<and>
   img_y (images demo_presented 0) = 20 \<and>
   img_width (images demo_presented 0) = 40 \<and>
   img_height (images demo_presented 0) = 60 \<and>
   img_r (images demo_presented 0) = 0 \<and>
   anchorX (images demo_presented 0) = 20 \<and>
   anchorY (images demo_presented 0) = 30"
proof -
  have pass: "present demo_env demo_view = Ok demo_presented \<or> tick demo_env 0 demo_view = Ok demo_presented"
    by (simp add: present_demo)
  have j: "1 < length (drawOrder (the_skeleton demo_context))"
    by (simp add: demo_order)
  have a: "region_of (drawOrder (the_skeleton demo_context) ! 1) = Some demo_region"
    by (simp add: demo_order region_of_def)
  have b: "slot_bone (drawOrder (the_skeleton demo_context) ! 1) = demo_bone"
    by (simp add: demo_order)
  have r: "rendererObject demo_region = 0"
    by (simp add: demo_region_def)
  show ?thesis
    using present_places_region [OF pass demo_presented_ctx j refl a b demo_last]
      present_demo demo_presented_ctx a b
    by (simp add: r demo_region_def demo_bone_def)
qed

text \<open>
  C4: after every presentation pass, alone or at the end of a tick, an image of
  rendererObjects is visible if and only if a region attachment of the draw order holds
  it, and its z-index is the index of that entry (of the last one, should several hold
  it); an image no entry holds ends the pass hidden.
\<close>

theorem pass_visibility:
  assumes pass: "present env v = Ok v' \<or> tick env dt v = Ok v'"
    and c': "ctx v' = Some c'"
    and r: "r \<in> set (rendererObjects c')"
  shows "(img_visible (images v' r) = (\<exists>s \<in> set (drawOrder (the_skeleton c')). shows_image r s)) \<and>
         (\<forall>j. j < length (drawOrder (the_skeleton c')) \<and>
              shows_image r (drawOrder (the_skeleton c') ! j) \<and>
              (\<forall>k. j < k \<and> k < length (drawOrder (the_skeleton c')) \<longrightarrow>
                   \<not> shows_image r (drawOrder (the_skeleton c') ! k))
              \<longrightarrow> zIndex (images v' r) = j)"
proof (intro conjI allI impI)
  from pass_images [OF pass c'] obtain im where
    im: "images v' = show_slots 0 (drawOrder (the_skeleton c')) (hide_all (rendererObjects c') im)"
    by blast
  from r have "\<not> img_visible (hide_all (rendererObjects c') im r)"
    by (rule hide_all_hidden)
  with im show "img_visible (images v' r) = (\<exists>s \<in> set (drawOrder (the_skeleton c')). shows_image r s)"
    by (simp add: show_slots_visible)
  fix j
  assume h: "j < length (drawOrder (the_skeleton c')) \<and>
              shows_image r (drawOrder (the_skeleton c') ! j) \<and>
              (\<forall>k. j < k \<and> k < length (drawOrder (the_skeleton c')) \<longrightarrow>
                   \<not> shows_image r (drawOrder (the_skeleton c') ! k))"
  then obtain a where a: "region_of (drawOrder (the_skeleton c') ! j) = Some a" "rendererObject a = r"
    by (auto simp: shows_image_def split: option.splits)
  with h have "\<exists>img. show_slots 0 (drawOrder (the_skeleton c')) (hide_all (rendererObjects c') im) (rendererObject a)
       = place (0 + j) (slot_bone (drawOrder (the_skeleton c') ! j)) a img"
    by (intro show_slots_last) auto
  with im a show "zIndex (images v' r) = j"
    by (auto simp: place_def Let_def)
qed

lemma demo_ticked_eq:
  "tick demo_env 16 demo_view = Ok demo_ticked"
  by (simp add: demo_ticked_def tick_def present_def Let_def demo_view_def)

lemma demo_ticked_ctx:
  "ctx demo_ticked = Some (demo_context\<lparr>state := (state demo_context)\<lparr>calls :=
      [SetAnimation 0 ''idle'' True, Update (2/125), Apply]\<rparr>\<rparr>)"
  by (simp add: demo_ticked_def tick_def present_def Let_def demo_view_def demo_env_def
      demo_context_def update_def apply_state_def)

theorem pass_visibility_witness:
  "tick demo_env 16 demo_view = Ok demo_ticked \<and>
   0 \<in> set (rendererObjects demo_context) \<and> 1 \<in> set (rendererObjects demo_context) \<and>
   shows_image 0 (drawOrder (the_skeleton demo_context) ! 1) \<and>
   img_visible (images demo_ticked 0) \<and>
   zIndex (images demo_ticked 0) = 1 \<and>
   \<not> img_visible (images demo_ticked 1)"
proof -
  let ?c = "demo_context\<lparr>state := (state demo_context)\<lparr>calls :=
      [SetAnimation 0 ''idle'' True, Update (2/125), Apply]\<rparr>\<rparr>"
  have pass: "present demo_env demo_view = Ok demo_ticked \<or> tick demo_env 16 demo_view = Ok demo_ticked"
    by (simp add: demo_ticked_eq)
  have order: "drawOrder (the_skeleton ?c) = drawOrder (the_skeleton demo_context)"
    by simp
  have r0: "0 \<in> set (rendererObjects ?c)" and r1: "1 \<in> set (rendererObjects ?c)"
    by (simp_all add: demo_context_def)
  have s0: "shows_image 0 (drawOrder (the_skeleton demo_context) ! 1)"
    by (simp add: demo_order shows_image_def region_of_def demo_region_def)
  have n1: "\<not> (\<exists>s \<in> set (drawOrder (the_skeleton demo_context)). shows_image 1 s)"
    by (simp add: demo_order shows_image_def region_of_def demo_region_def)
  have j: "1 < length (drawOrder (the_skeleton demo_context))"
    by (simp add: demo_order)
  from pass_visibility [OF pass demo_ticked_ctx r0] s0 j demo_last [of 0]
  have "img_visible (images demo_ticked 0) \<and> zIndex (images demo_ticked 0) = 1"
    by (auto simp: demo_order)
  moreover from pass_visibility [OF pass demo_ticked_ctx r1] n1
  have "\<not> img_visible (images demo_ticked 1)"
    by simp
  ultimately show ?thesis
    using demo_ticked_eq s0 by (simp add: demo_context_def)
qed

lemma time_of_append: "time_of (xs @ ys) = time_of xs + time_of ys"
  by (induction xs rule: time_of.induct) auto

lemma present_redraws:
  assumes c: "ctx w = Some c"
  shows "\<exists>v' c'. present env w = Ok v' \<and> ctx v' = Some c' \<and>
           state c' = state c \<and>
           the_skeleton c' = updateWorldTransform env (the_skeleton c) \<and>
           rendererObjects c' = rendererObjects c \<and>
           images v' = show_slots 0 (drawOrder (the_skeleton c'))
                         (hide_all (rendererObjects c) (images w)) \<and>
           (\<forall>r \<in> set (rendererObjects c).
              img_visible (images v' r) =
                (\<exists>s \<in> set (drawOrder (the_skeleton c')). shows_image r s)) \<and>
           (\<forall>j a. j < length (drawOrder (the_skeleton c')) \<and>
                  region_of (drawOrder (the_skeleton c') ! j) = Some a \<and>
                  (\<forall>k. j < k \<and> k < length (drawOrder (the_skeleton c')) \<longrightarrow>
                       \<not> shows_image (rendererObject a) (drawOrder (the_skeleton c') ! k)) \<longrightarrow>
                  (\<exists>img. images v' (rendererObject a) =
                     place j (slot_bone (drawOrder (the_skeleton c') ! j)) a img))"
proof -
  let ?sk = "updateWorldTransform env (the_skeleton c)"
  let ?im = "show_slots 0 (drawOrder ?sk) (hide_all (rendererObjects c) (images w))"
  let ?c' = "c\<lparr>the_skeleton := ?sk\<rparr>"
  let ?v' = "w\<lparr>ctx := Some ?c', images := ?im\<rparr>"
  have p: "present env w = Ok ?v'"
    using c by (simp add: present_def Let_def)
  have vis: "\<forall>r \<in> set (rendererObjects c).
              img_visible (?im r) = (\<exists>s \<in> set (drawOrder ?sk). shows_image r s)"
    by (simp add: show_slots_visible hide_all_hidden)
  have pl: "\<forall>j a. j < length (drawOrder ?sk) \<and>
                  region_of (drawOrder ?sk ! j) = Some a \<and>
                  (\<forall>k. j < k \<and> k < length (drawOrder ?sk) \<longrightarrow>
                       \<not> shows_image (rendererObject a) (drawOrder ?sk ! k)) \<longrightarrow>
                  (\<exists>img. ?im (rendererObject a) = place j (slot_bone (drawOrder ?sk ! j)) a img)"
  proof (intro allI impI)
    fix j a
    assume h: "j < length (drawOrder ?sk) \<and>
                  region_of (drawOrder ?sk ! j) = Some a \<and>
                  (\<forall>k. j < k \<and> k < length (drawOrder ?sk) \<longrightarrow>
                       \<not> shows_image (rendererObject a) (drawOrder ?sk ! k))"
    then have "\<exists>img. show_slots 0 (drawOrder ?sk) (hide_all (rendererObjects c) (images w))
                 (rendererObject a) = place (0 + j) (slot_bone (drawOrder ?sk ! j)) a img"
      by (intro show_slots_last) auto
    then show "\<exists>img. ?im (rendererObject a) = place j (slot_bone (drawOrder ?sk ! j)) a img"
      by simp
  qed
  from p vis pl show ?thesis
    by (intro exI [of _ ?v'] exI [of _ ?c']) simp
qed

text \<open>
  C7: on an initialised view, tick(dt) updates the engine by
  dt * (0.001 * 30 / frameRate) and applies the pose exactly when the view is playing
  and visible; otherwise the engine is left as it is, its time with it. In both cases
  the presenter redraws: the images after the tick are those of the two loops over the
  skeleton as it then stands, so that an image of rendererObjects is visible exactly
  when a region attachment of the draw order holds it, and the image of a region
  attachment is placed by its last entry in the draw order.
\<close>

theorem tick_advances:
  assumes c: "ctx v = Some c"
  shows "\<exists>v' c'. tick env dt v = Ok v' \<and> ctx v' = Some c' \<and>
           (isPlaying v \<and> visible v \<longrightarrow>
              tick env dt v =
                present env (v\<lparr>ctx := Some (apply_state env
                                 (update (dt * (0.001 * 30 / frameRate v)) c))\<rparr>) \<and>
              calls (state c') =
                calls (state c) @ [Update (dt * (0.001 * 30 / frameRate v)), Apply] \<and>
              engine_time (state c') =
                engine_time (state c) + dt * (0.001 * 30 / frameRate v) \<and>
              the_skeleton c' =
                updateWorldTransform env
                  (applyPose env
                     ((state c)\<lparr>calls := calls (state c) @
                                  [Update (dt * (0.001 * 30 / frameRate v))]\<rparr>)
                     (the_skeleton c))) \<and>
           (\<not> (isPlaying v \<and> visible v) \<longrightarrow>
              tick env dt v = present env v \<and>
              state c' = state c \<and> engine_time (state c') = engine_time (state c) \<and>
              the_skeleton c' = updateWorldTransform env (the_skeleton c)) \<and>
           rendererObjects c' = rendererObjects c \<and>
           images v' = show_slots 0 (drawOrder (the_skeleton c'))
                         (hide_all (rendererObjects c) (images v)) \<and>
           (\<forall>r \<in> set (rendererObjects c).
              img_visible (images v' r) =
                (\<exists>s \<in> set (drawOrder (the_skeleton c')). shows_image r s)) \<and>
           (\<forall>j a. j < length (drawOrder (the_skeleton c')) \<and>
                  region_of (drawOrder (the_skeleton c') ! j) = Some a \<and>
                  (\<forall>k. j < k \<and> k < length (drawOrder (the_skeleton c')) \<longrightarrow>
                       \<not> shows_image (rendererObject a) (drawOrder (the_skeleton c') ! k)) \<longrightarrow>
                  (\<exists>img. images v' (rendererObject a) =
                     place j (slot_bone (drawOrder (the_skeleton c') ! j)) a img))"
proof (cases "isPlaying v \<and> visible v")
  case True
  let ?d = "dt * (0.001 * 30 / frameRate v)"
  let ?cw = "apply_state env (update ?d c)"
  let ?w = "v\<lparr>ctx := Some ?cw\<rparr>"
  have t: "tick env dt v = present env ?w"
    using c True by (simp add: tick_def)
  have w: "ctx ?w = Some ?cw" by simp
  have cw: "calls (state ?cw) = calls (state c) @ [Update ?d, Apply]"
    "engine_time (state ?cw) = engine_time (state c) + ?d"
    "the_skeleton ?cw =
       applyPose env ((state c)\<lparr>calls := calls (state c) @ [Update ?d]\<rparr>) (the_skeleton c)"
    "rendererObjects ?cw = rendererObjects c" "images ?w = images v"
    by (simp_all add: update_def apply_state_def engine_time_def time_of_append)
  from present_redraws [OF w, of env] obtain v' c' where
    "present env ?w = Ok v'" "ctx v' = Some c'" "state c' = state ?cw"
    "the_skeleton c' = updateWorldTransform env (the_skeleton ?cw)"
    "rendererObjects c' = rendererObjects ?cw"
    "images v' = show_slots 0 (drawOrder (the_skeleton c'))
                         (hide_all (rendererObjects ?cw) (images ?w))"
    "\<forall>r \<in> set (rendererObjects ?cw).
              img_visible (images v' r) =
                (\<exists>s \<in> set (drawOrder (the_skeleton c')). shows_image r s)"
    "\<forall>j a. j < length (drawOrder (the_skeleton c')) \<and>
                  region_of (drawOrder (the_skeleton c') ! j) = Some a \<and>
                  (\<forall>k. j < k \<and> k < length (drawOrder (the_skeleton c')) \<longrightarrow>
                       \<not> shows_image (rendererObject a) (drawOrder (the_skeleton c') ! k)) \<longrightarrow>
                  (\<exists>img. images v' (rendererObject a) =
                     place j (slot_bone (drawOrder (the_skeleton c') ! j)) a img)"
    by blast
  with True t cw show ?thesis
    by (intro exI [of _ v'] exI [of _ c']) simp
next
  case False
  have t: "tick env dt v = present env v"
    using c False by (auto simp: tick_def)
  from present_redraws [OF c, of env] obtain v' c' where
    "present env v = Ok v'" "ctx v' = Some c'" "state c' = state c"
    "the_skeleton c' = updateWorldTransform env (the_skeleton c)"
    "rendererObjects c' = rendererObjects c"
    "images v' = show_slots 0 (drawOrder (the_skeleton c'))
                         (hide_all (rendererObjects c) (images v))"
    "\<forall>r \<in> set (rendererObjects c).
              img_visible (images v' r) =
                (\<exists>s \<in> set (drawOrder (the_skeleton c')). shows_image r s)"
    "\<forall>j a. j < length (drawOrder (the_skeleton c')) \<and>
                  region_of (drawOrder (the_skeleton c') ! j) = Some a \<and>
                  (\<forall>k. j < k \<and> k < length (drawOrder (the_skeleton c')) \<longrightarrow>
                       \<not> shows_image (rendererObject a) (drawOrder (the_skeleton c') ! k)) \<longrightarrow>
                  (\<exists>img. images v' (rendererObject a) =
                     place j (slot_bone (drawOrder (the_skeleton c') ! j)) a img)"
    by blast
  with False t show ?thesis
    by (intro exI [of _ v'] exI [of _ c']) simp
qed

theorem tick_advances_witness:
  "ctx demo_view = Some demo_context \<and> isPlaying demo_view \<and> visible demo_view \<and>
   engine_time (state demo_context) = 0 \<and>
   (\<exists>c'. ctx (after (tick demo_env 1000 demo_view)) = Some c' \<and> engine_time (state c') = 1) \<and>
   ctx (pause demo_view) = Some demo_context \<and> \<not> isPlaying (pause demo_view) \<and>
   \<not> img_visible (images (pause demo_view) 0) \<and>
   tick demo_env 1000 (pause demo_view) = present demo_env (pause demo_view) \<and>
   (\<exists>c'. ctx (after (tick demo_env 1000 (pause demo_view))) = Some c' \<and>
         engine_time (state c') = 0) \<and>
   img_visible (images (after (tick demo_env 1000 (pause demo_view))) 0) \<and>
   img_x (images (after (tick demo_env 1000 (pause demo_view))) 0) = 80 \<and>
   img_y (images (after (tick demo_env 1000 (pause demo_view))) 0) = 20 \<and>
   zIndex (images (after (tick demo_env 1000 (pause demo_view))) 0) = 1 \<and>
   \<not> img_visible (images (after (tick demo_env 1000 (pause demo_view))) 1)"
proof -
  have p: "ctx (pause demo_view) = Some demo_context"
    by (simp add: pause_def demo_view_def)
  have t0: "engine_time (state demo_context) = 0"
    by (simp add: engine_time_def demo_context_def)
  have f: "frameRate demo_view = 30" "isPlaying demo_view" "visible demo_view"
    "\<not> isPlaying (pause demo_view)" "\<not> img_visible (images (pause demo_view) 0)"
    by (simp_all add: demo_view_def pause_def demo_images_def new_image_def)
  from tick_advances [OF demo_ctx, of demo_env 1000] f
  obtain v' c' where run: "tick demo_env 1000 demo_view = Ok v'" "ctx v' = Some c'"
    "engine_time (state c') =
       engine_time (state demo_context) + 1000 * (0.001 * 30 / frameRate demo_view)"
    by blast
  from run f t0
  have a: "\<exists>c'. ctx (after (tick demo_env 1000 demo_view)) = Some c' \<and> engine_time (state c') = 1"
    by simp
  from tick_advances [OF p, of demo_env 1000] f
  obtain w' d' where still: "tick demo_env 1000 (pause demo_view) = present demo_env (pause demo_view)"
    "tick demo_env 1000 (pause demo_view) = Ok w'" "ctx w' = Some d'"
    "engine_time (state d') = engine_time (state demo_context)"
    and sk: "the_skeleton d' = updateWorldTransform demo_env (the_skeleton demo_context)"
    and vis: "\<forall>r \<in> set (rendererObjects demo_context).
              img_visible (images w' r) =
                (\<exists>s \<in> set (drawOrder (the_skeleton d')). shows_image r s)"
    and pl: "\<forall>j a. j < length (drawOrder (the_skeleton d')) \<and>
                  region_of (drawOrder (the_skeleton d') ! j) = Some a \<and>
                  (\<forall>k. j < k \<and> k < length (drawOrder (the_skeleton d')) \<longrightarrow>
                       \<not> shows_image (rendererObject a) (drawOrder (the_skeleton d') ! k)) \<longrightarrow>
                  (\<exists>img. images w' (rendererObject a) =
                     place j (slot_bone (drawOrder (the_skeleton d') ! j)) a img)"
    by blast
  from sk have sk': "the_skeleton d' = the_skeleton demo_context"
    by (simp add: demo_env_def)
  from still(2-4) t0
  have b: "\<exists>c'. ctx (after (tick demo_env 1000 (pause demo_view))) = Some c' \<and>
         engine_time (state c') = 0"
    by simp
  have ro: "rendererObjects demo_context = [0, 1]"
    by (simp add: demo_context_def)
  from vis have shown: "img_visible (images w' 0)" and hidden: "\<not> img_visible (images w' 1)"
    by (simp_all add: ro sk' demo_order shows_image_def region_of_def demo_region_def)
  have "1 < length (drawOrder (the_skeleton d')) \<and>
        region_of (drawOrder (the_skeleton d') ! 1) = Some demo_region \<and>
        (\<forall>k. 1 < k \<and> k < length (drawOrder (the_skeleton d')) \<longrightarrow>
             \<not> shows_image (rendererObject demo_region) (drawOrder (the_skeleton d') ! k))"
    using demo_last [of "rendererObject demo_region"]
    by (simp add: sk' demo_order region_of_def)
  with pl obtain img where
    "images w' (rendererObject demo_region) =
       place 1 (slot_bone (drawOrder (the_skeleton d') ! 1)) demo_region img"
    by blast
  then have placed: "img_x (images w' 0) = 80 \<and> img_y (images w' 0) = 20 \<and>
      zIndex (images w' 0) = 1"
    by (simp add: sk' demo_order place_def Let_def demo_region_def demo_bone_def)
  from still(2) have w': "after (tick demo_env 1000 (pause demo_view)) = w'" by simp
  from a b still(1) p f t0 demo_ctx shown hidden placed show ?thesis
    unfolding w' by blast
qed

section \<open>Completions of a transient request\<close>

lemma completions_Suc_right:
  "completions (Suc n) v =
     (case completions n v of Ok w \<Rightarrow> onComplete w | Raised e w \<Rightarrow> Raised e w)"
proof (induction n arbitrary: v)
  case 0
  show ?case by (cases "onComplete v") simp_all
next
  case (Suc n)
  show ?case
  proof (cases "onComplete v")
    case (Ok w)
    then show ?thesis using Suc.IH [of w] by simp
  next
    case (Raised e w)
    then show ?thesis by simp
  qed
qed

lemma completions_add:
  "completions n v = Ok w \<Longrightarrow> completions (n + m) v = completions m w"
proof (induction n arbitrary: v)
  case 0
  then show ?case by simp
next
  case (Suc n)
  then show ?case by (cases "onComplete v") simp_all
qed

lemma js_dec_exact: "- (2 ^ 53) < n \<Longrightarrow> n \<le> 2 ^ 53 \<Longrightarrow> js_dec n = n - 1"
  by (simp add: js_dec_def to_double_def abs_le_iff)

lemma onComplete_rearm:
  assumes "ctx w = Some c" "handlers (state c)" "\<not> isOnDefault w"
    and "currentAnimationOpts w = Some r" "\<not> req_loop r"
    and "1 < iterations r" "iterations r \<le> 2 ^ 53"
    and "findAnimation (skeletonData c) (animationName r) = Some d"
  shows "onComplete w =
           Ok (w\<lparr>currentAnimationOpts := Some (r\<lparr>iterations := iterations r - 1\<rparr>),
                  ctx := Some (c\<lparr>state := (state c)\<lparr>calls := calls (state c) @
                                   [SetAnimation 0 (animationName r) False]\<rparr>\<rparr>)\<rparr>)"
proof -
  from assms(6,7) have "js_dec (iterations r) = iterations r - 1"
    by (intro js_dec_exact) simp_all
  with assms show ?thesis
    by (simp add: onComplete_def Let_def setAnimationByName_def)
qed

lemma onComplete_final:
  assumes "ctx w = Some c" "handlers (state c)" "\<not> isOnDefault w"
    and "currentAnimationOpts w = Some r" "\<not> req_loop r" "iterations r = 1"
  shows "onComplete w =
           resetAnimation (call_callback (r\<lparr>iterations := 0\<rparr>)
             (w\<lparr>currentAnimationOpts := Some (r\<lparr>iterations := 0\<rparr>)\<rparr>))"
proof -
  from assms(6) have "js_dec (iterations r) = 0"
    by (simp add: js_dec_exact)
  with assms show ?thesis
    by (simp add: onComplete_def Let_def)
qed

lemma startAnimation_found:
  assumes "ctx v = Some c" "findAnimation (skeletonData c) name = Some d"
  shows "startAnimation name os v =
           Ok (v\<lparr>ctx := Some (c\<lparr>state := (state c)\<lparr>calls := calls (state c) @
                    [SetAnimation 0 name (case os of Some p \<Rightarrow> or_bool (opt_loop p) False | None \<Rightarrow> False)]\<rparr>\<rparr>),
                  visible := True, isPlaying := True, isOnDefault := False,
                  currentAnimationOpts := Some (new_request name
                     (case os of Some p \<Rightarrow> or_bool (opt_loop p) False | None \<Rightarrow> False) os)\<rparr>)"
  using assms by (simp add: startAnimation_def Let_def setAnimationByName_def)

lemma rearm_steps:
  assumes c: "ctx v1 = Some c1" "handlers (state c1)" "\<not> isOnDefault v1"
    and r: "currentAnimationOpts v1 = Some r" "\<not> req_loop r" "iterations r = int N"
    and f: "findAnimation (skeletonData c1) (animationName r) = Some d"
    and b: "int N \<le> 2 ^ 53"
    and k: "k < N"
  shows "completions k v1 =
           Ok (v1\<lparr>currentAnimationOpts := Some (r\<lparr>iterations := int N - int k\<rparr>),
                   ctx := Some (c1\<lparr>state := (state c1)\<lparr>calls := calls (state c1) @
                                   replicate k (SetAnimation 0 (animationName r) False)\<rparr>\<rparr>)\<rparr>)"
  using k
proof (induction k)
  case 0
  with c r show ?case by simp
next
  case (Suc k)
  let ?w = "v1\<lparr>currentAnimationOpts := Some (r\<lparr>iterations := int N - int k\<rparr>),
                   ctx := Some (c1\<lparr>state := (state c1)\<lparr>calls := calls (state c1) @
                                   replicate k (SetAnimation 0 (animationName r) False)\<rparr>\<rparr>)\<rparr>"
  from Suc have w: "completions k v1 = Ok ?w" by simp
  from Suc.prems have big: "1 < int N - int k" by simp
  have "onComplete ?w =
      Ok (?w\<lparr>currentAnimationOpts := Some ((r\<lparr>iterations := int N - int k\<rparr>)\<lparr>iterations := iterations (r\<lparr>iterations := int N - int k\<rparr>) - 1\<rparr>),
                  ctx := Some ((c1\<lparr>state := (state c1)\<lparr>calls := calls (state c1) @
                                   replicate k (SetAnimation 0 (animationName r) False)\<rparr>\<rparr>)\<lparr>state := (state (c1\<lparr>state := (state c1)\<lparr>calls := calls (state c1) @
                                   replicate k (SetAnimation 0 (animationName r) False)\<rparr>\<rparr>))\<lparr>calls := calls (state (c1\<lparr>state := (state c1)\<lparr>calls := calls (state c1) @
                                   replicate k (SetAnimation 0 (animationName r) False)\<rparr>\<rparr>)) @
                                   [SetAnimation 0 (animationName (r\<lparr>iterations := int N - int k\<rparr>)) False]\<rparr>\<rparr>)\<rparr>)"
    using c r f b big by (intro onComplete_rearm) simp_all
  then show ?case
    using w by (simp add: completions_Suc_right replicate_append_same algebra_simps
        del: completions.simps)
qed

lemma resetAnimation_result:
  assumes c: "ctx w = Some c"
    and f: "\<forall>dn. truthy_str (defaultAnimation (opts w)) = Some dn \<longrightarrow>
                findAnimation (skeletonData c) dn \<noteq> None"
  shows "\<exists>w'. resetAnimation w = Ok w' \<and> invoked w' = invoked w \<and>
           currentAnimationOpts w' = None \<and> isOnDefault w' \<and>
           (case truthy_str (defaultAnimation (opts w)) of
              Some dn \<Rightarrow> isPlaying w' \<and> visible w' \<and>
                (\<exists>c' l. ctx w' = Some c' \<and> calls (state c') = calls (state c) @ [SetAnimation 0 dn l])
            | None \<Rightarrow> \<not> isPlaying w' \<and> \<not> visible w' \<and> ctx w' = Some c)"
proof (cases "truthy_str (defaultAnimation (opts w))")
  case None
  with c show ?thesis
    by (simp add: resetAnimation_def stopAnimation_def)
next
  case (Some dn)
  with f obtain d where "findAnimation (skeletonData c) dn = Some d" by auto
  with c Some show ?thesis
    by (simp add: resetAnimation_def setAnimationByName_def)
qed

lemma onComplete_idle:
  assumes "currentAnimationOpts w = None"
  shows "currentAnimationOpts (after (onComplete w)) = None \<and>
         invoked (after (onComplete w)) = invoked w"
  using assms
  by (auto simp: onComplete_def resetAnimation_def stopAnimation_def
      split: option.splits)

lemma completions_idle:
  "currentAnimationOpts w = None \<Longrightarrow> invoked (after (completions m w)) = invoked w"
proof (induction m arbitrary: w)
  case 0
  show ?case by simp
next
  case (Suc m)
  from onComplete_idle [OF Suc.prems]
  have i: "currentAnimationOpts (after (onComplete w)) = None"
    "invoked (after (onComplete w)) = invoked w" by simp_all
  show ?case
  proof (cases "onComplete w")
    case (Ok w')
    with i Suc.IH [of w'] show ?thesis by simp
  next
    case (Raised e w')
    with i show ?thesis by simp
  qed
qed

lemma resetAnimation_invoked: "invoked (after (resetAnimation v)) = invoked v"
  by (auto simp: resetAnimation_def stopAnimation_def split: option.splits)

text \<open>
  C1, as stated, fails twice. The count is a JavaScript number: a request started with
  iterations = 2^54 keeps that count at every completion (2^54 - 1 is not a double and
  rounds back to 2^54), so it never completes. And where the default animation of the
  construction options is not in the skeleton data (a view that resetAllAnimations
  rebuilt from another source), resetAnimation throws after the callback was called,
  the request stays, and the next completion calls the callback again: a request for
  two iterations has called it twice after three completions.
\<close>

theorem transient_iterations_counterexample:
  "opt_iterations huge = Some (2 ^ 54) \<and>
   map_option iterations
     (currentAnimationOpts
        (after (completions 3 (after (startAnimation ''jump'' (Some huge) demo_view))))) =
     Some (2 ^ 54) \<and>
   is_ok (startAnimation ''jump'' (Some twice) swapped_view) \<and>
   invoked (after (startAnimation ''jump'' (Some twice) swapped_view)) = [] \<and>
   invoked (run swap_env [OnComplete, OnComplete, OnComplete]
              (after (startAnimation ''jump'' (Some twice) swapped_view))) =
     [Completed 7, Completed 7]"
proof -
  have bits: "floorlog 2 18014398509481983 = 54"
    by (simp add: compute_floorlog)
  have stuck: "js_dec 18014398509481984 = 18014398509481984"
    by (simp add: js_dec_def to_double_def bits Let_def)
  have a: "map_option iterations
     (currentAnimationOpts
        (after (completions 3 (after (startAnimation ''jump'' (Some huge) demo_view))))) =
     Some 18014398509481984"
    by (simp add: startAnimation_def onComplete_def new_request_def setAnimationByName_def
        findAnimation_def js_defs demo_defs huge_def Let_def eval_nat_numeral stuck)
  have b: "is_ok (startAnimation ''jump'' (Some twice) swapped_view) \<and>
   invoked (after (startAnimation ''jump'' (Some twice) swapped_view)) = [] \<and>
   invoked (run swap_env [OnComplete, OnComplete, OnComplete]
              (after (startAnimation ''jump'' (Some twice) swapped_view))) =
     [Completed 7, Completed 7]"
    by (simp add: init_defs play_defs js_defs demo_defs swapped_view_def swap_env_def
        swap_opts_def swap_data_def twice_def Let_def)
  from a b show ?thesis by (simp add: huge_def)
qed

text \<open>
  C1, amended: a request that does not loop, started with iterations = N,
  1 <= N <= 2^53, on an initialised view. After k < N completions the remaining count
  is N - k, the animation has been armed k + 1 times, not looping, and no callback was
  called. The N-th completion calls the completion callback once and runs
  resetAnimation. When the default animation of the construction options, if there is
  one, is an animation of the skeleton data, the view then is on its default (playing
  and visible with the default animation armed, or stopped and hidden when none is
  configured), and no later completion calls the callback again.
\<close>

theorem transient_iterations:
  assumes c: "ctx v = Some c" and h: "handlers (state c)"
    and found: "findAnimation (skeletonData c) name \<noteq> None"
    and n: "opt_iterations p = Some (int N)" "1 \<le> N" "int N \<le> 2 ^ 53"
    and l: "\<not> truthy_bool (opt_loop p)"
  shows "\<exists>v1. startAnimation name (Some p) v = Ok v1 \<and>
           (\<forall>k<N. \<exists>w ck. completions k v1 = Ok w \<and> \<not> isOnDefault w \<and>
                currentAnimationOpts w =
                  Some \<lparr> iterations = int N - int k, callback = opt_callback p,
                         eventCallback = opt_eventCallback p, req_loop = False,
                         animationName = name \<rparr> \<and>
                invoked w = invoked v \<and> ctx w = Some ck \<and>
                calls (state ck) =
                  calls (state c) @ replicate (Suc k) (SetAnimation 0 name False)) \<and>
           (\<exists>u. completions N v1 = resetAnimation u \<and>
                invoked u = invoked v @ callbacks_of (opt_callback p) \<and>
                opts u = opts v) \<and>
           invoked (after (completions N v1)) = invoked v @ callbacks_of (opt_callback p) \<and>
           ((\<forall>dn. truthy_str (defaultAnimation (opts v)) = Some dn \<longrightarrow>
                  findAnimation (skeletonData c) dn \<noteq> None) \<longrightarrow>
            (\<exists>w cw. completions N v1 = Ok w \<and>
                invoked w = invoked v @ callbacks_of (opt_callback p) \<and>
                currentAnimationOpts w = None \<and> isOnDefault w \<and> ctx w = Some cw \<and>
                (case truthy_str (defaultAnimation (opts v)) of
                   Some dn \<Rightarrow> isPlaying w \<and> visible w \<and>
                     (\<exists>dl. calls (state cw) =
                        calls (state c) @ replicate N (SetAnimation 0 name False) @
                          [SetAnimation 0 dn dl])
                 | None \<Rightarrow> \<not> isPlaying w \<and> \<not> visible w \<and>
                     calls (state cw) =
                       calls (state c) @ replicate N (SetAnimation 0 name False))) \<and>
            (\<forall>m. invoked (after (completions (N + m) v1)) =
                   invoked v @ callbacks_of (opt_callback p)))"
proof -
  from found obtain d where d: "findAnimation (skeletonData c) name = Some d" by auto
  define r where "r = \<lparr> iterations = int N, callback = opt_callback p,
      eventCallback = opt_eventCallback p, req_loop = False, animationName = name \<rparr>"
  define c1 where "c1 = c\<lparr>state := (state c)\<lparr>calls := calls (state c) @ [SetAnimation 0 name False]\<rparr>\<rparr>"
  define v1 where "v1 = v\<lparr>ctx := Some c1, visible := True, isPlaying := True,
      isOnDefault := False, currentAnimationOpts := Some r\<rparr>"
  have lf: "or_bool (opt_loop p) False = False"
    using l by (simp add: or_bool_def)
  have start: "startAnimation name (Some p) v = Ok v1"
    using n by (simp add: startAnimation_found [OF c d] lf new_request_def or_int_def
        v1_def c1_def r_def)
  have v1: "ctx v1 = Some c1" "handlers (state c1)" "\<not> isOnDefault v1"
    "currentAnimationOpts v1 = Some r" "\<not> req_loop r" "iterations r = int N"
    "findAnimation (skeletonData c1) (animationName r) = Some d"
    using h d by (simp_all add: v1_def c1_def r_def)
  have steps: "completions k v1 =
           Ok (v1\<lparr>currentAnimationOpts := Some (r\<lparr>iterations := int N - int k\<rparr>),
                   ctx := Some (c1\<lparr>state := (state c1)\<lparr>calls := calls (state c1) @
                                   replicate k (SetAnimation 0 (animationName r) False)\<rparr>\<rparr>)\<rparr>)"
    if "k < N" for k
    using v1 n(3) that by (rule rearm_steps)
  have waiting: "\<forall>k<N. \<exists>w ck. completions k v1 = Ok w \<and> \<not> isOnDefault w \<and>
                currentAnimationOpts w =
                  Some \<lparr> iterations = int N - int k, callback = opt_callback p,
                         eventCallback = opt_eventCallback p, req_loop = False,
                         animationName = name \<rparr> \<and>
                invoked w = invoked v \<and> ctx w = Some ck \<and>
                calls (state ck) =
                  calls (state c) @ replicate (Suc k) (SetAnimation 0 name False)"
  proof (intro allI impI)
    fix k assume "k < N"
    from steps [OF this] show "\<exists>w ck. completions k v1 = Ok w \<and> \<not> isOnDefault w \<and>
                currentAnimationOpts w =
                  Some \<lparr> iterations = int N - int k, callback = opt_callback p,
                         eventCallback = opt_eventCallback p, req_loop = False,
                         animationName = name \<rparr> \<and>
                invoked w = invoked v \<and> ctx w = Some ck \<and>
                calls (state ck) =
                  calls (state c) @ replicate (Suc k) (SetAnimation 0 name False)"
      by (simp add: v1_def c1_def r_def)
  qed
  obtain M where M: "N = Suc M" using n(2) by (cases N) simp_all
  define r' where "r' = r\<lparr>iterations := 0\<rparr>"
  define cM where "cM = c1\<lparr>state := (state c1)\<lparr>calls := calls (state c1) @
                                   replicate M (SetAnimation 0 name False)\<rparr>\<rparr>"
  define wM where "wM = v1\<lparr>currentAnimationOpts := Some (r\<lparr>iterations := 1\<rparr>), ctx := Some cM\<rparr>"
  have "completions M v1 = Ok wM"
    using steps [of M] M by (simp add: wM_def cM_def r_def)
  moreover have "onComplete wM =
      resetAnimation (call_callback r' (wM\<lparr>currentAnimationOpts := Some r'\<rparr>))"
    using h by (simp add: onComplete_final [where c = cM and r = "r\<lparr>iterations := 1\<rparr>"]
        wM_def cM_def c1_def v1_def r_def r'_def)
  ultimately have last: "completions N v1 =
      resetAnimation (call_callback r' (wM\<lparr>currentAnimationOpts := Some r'\<rparr>))"
    by (simp add: M completions_Suc_right del: completions.simps)
  let ?u = "call_callback r' (wM\<lparr>currentAnimationOpts := Some r'\<rparr>)"
  have u: "ctx ?u = Some cM" "opts ?u = opts v"
    "invoked ?u = invoked v @ callbacks_of (opt_callback p)"
    by (simp_all add: call_callback_def callbacks_of_def wM_def v1_def r'_def r_def
        split: option.splits)
  have cMcalls: "calls (state cM) = calls (state c) @ replicate N (SetAnimation 0 name False)"
    by (simp add: cM_def c1_def M)
  have nth: "\<exists>u. completions N v1 = resetAnimation u \<and>
                invoked u = invoked v @ callbacks_of (opt_callback p) \<and> opts u = opts v"
    using last u by blast
  have once: "invoked (after (completions N v1)) = invoked v @ callbacks_of (opt_callback p)"
    using last u(3) by (simp add: resetAnimation_invoked)
  have rest: "(\<exists>w cw. completions N v1 = Ok w \<and>
                invoked w = invoked v @ callbacks_of (opt_callback p) \<and>
                currentAnimationOpts w = None \<and> isOnDefault w \<and> ctx w = Some cw \<and>
                (case truthy_str (defaultAnimation (opts v)) of
                   Some dn \<Rightarrow> isPlaying w \<and> visible w \<and>
                     (\<exists>dl. calls (state cw) =
                        calls (state c) @ replicate N (SetAnimation 0 name False) @
                          [SetAnimation 0 dn dl])
                 | None \<Rightarrow> \<not> isPlaying w \<and> \<not> visible w \<and>
                     calls (state cw) =
                       calls (state c) @ replicate N (SetAnimation 0 name False))) \<and>
            (\<forall>m. invoked (after (completions (N + m) v1)) =
                   invoked v @ callbacks_of (opt_callback p))"
    if dflt: "\<forall>dn. truthy_str (defaultAnimation (opts v)) = Some dn \<longrightarrow>
                  findAnimation (skeletonData c) dn \<noteq> None"
  proof -
    have uf: "\<forall>dn. truthy_str (defaultAnimation (opts ?u)) = Some dn \<longrightarrow>
                findAnimation (skeletonData cM) dn \<noteq> None"
      using dflt u(2) by (simp add: cM_def c1_def)
    from resetAnimation_result [OF u(1) uf] obtain w where
      w: "resetAnimation ?u = Ok w" "invoked w = invoked ?u"
        "currentAnimationOpts w = None" "isOnDefault w"
        "(case truthy_str (defaultAnimation (opts ?u)) of
              Some dn \<Rightarrow> isPlaying w \<and> visible w \<and>
                (\<exists>c' l. ctx w = Some c' \<and> calls (state c') = calls (state cM) @ [SetAnimation 0 dn l])
            | None \<Rightarrow> \<not> isPlaying w \<and> \<not> visible w \<and> ctx w = Some cM)"
      by blast
    from w(5) obtain cw where cw: "ctx w = Some cw"
      by (auto split: option.splits)
    have fin: "\<exists>w cw. completions N v1 = Ok w \<and>
                invoked w = invoked v @ callbacks_of (opt_callback p) \<and>
                currentAnimationOpts w = None \<and> isOnDefault w \<and> ctx w = Some cw \<and>
                (case truthy_str (defaultAnimation (opts v)) of
                   Some dn \<Rightarrow> isPlaying w \<and> visible w \<and>
                     (\<exists>dl. calls (state cw) =
                        calls (state c) @ replicate N (SetAnimation 0 name False) @
                          [SetAnimation 0 dn dl])
                 | None \<Rightarrow> \<not> isPlaying w \<and> \<not> visible w \<and>
                     calls (state cw) =
                       calls (state c) @ replicate N (SetAnimation 0 name False))"
      using last w cw u cMcalls
      by (intro exI [of _ w] exI [of _ cw]) (auto split: option.splits)
    have later: "\<forall>m. invoked (after (completions (N + m) v1)) =
                  invoked v @ callbacks_of (opt_callback p)"
    proof
      fix m
      from last w(1) have "completions (N + m) v1 = completions m w"
        by (simp add: completions_add)
      with completions_idle [OF w(3), of m] w(2) u(3)
      show "invoked (after (completions (N + m) v1)) =
                  invoked v @ callbacks_of (opt_callback p)" by simp
    qed
    from fin later show ?thesis by blast
  qed
  from start waiting nth once rest show ?thesis by blast
qed

lemma demo_handlers: "handlers (state demo_context)"
  by (simp add: demo_context_def)

lemma demo_found: "findAnimation (skeletonData demo_context) ''jump'' \<noteq> None"
  by (simp add: findAnimation_def demo_context_def demo_data_def)

lemma demo_default_found:
  "\<forall>dn. truthy_str (defaultAnimation (opts demo_view)) = Some dn \<longrightarrow>
        findAnimation (skeletonData demo_context) dn \<noteq> None"
  by (simp add: truthy_str_def demo_view_def demo_config_def no_config_def findAnimation_def
      demo_context_def demo_data_def)

theorem transient_iterations_witness:
  "ctx demo_view = Some demo_context \<and> handlers (state demo_context) \<and>
   findAnimation (skeletonData demo_context) ''jump'' \<noteq> None \<and>
   opt_iterations twice = Some (int 2) \<and> int 2 \<le> 2 ^ 53 \<and>
   \<not> truthy_bool (opt_loop twice) \<and>
   truthy_str (defaultAnimation (opts demo_view)) = Some ''idle'' \<and>
   findAnimation (skeletonData demo_context) ''idle'' \<noteq> None \<and>
   is_ok (startAnimation ''jump'' (Some twice) demo_view) \<and>
   invoked (after (completions 1 (after (startAnimation ''jump'' (Some twice) demo_view)))) = [] \<and>
   invoked (after (completions 2 (after (startAnimation ''jump'' (Some twice) demo_view)))) =
     [Completed 7] \<and>
   invoked (after (completions 5 (after (startAnimation ''jump'' (Some twice) demo_view)))) =
     [Completed 7] \<and>
   isOnDefault (after (completions 2 (after (startAnimation ''jump'' (Some twice) demo_view)))) \<and>
   isPlaying (after (completions 2 (after (startAnimation ''jump'' (Some twice) demo_view)))) \<and>
   visible (after (completions 2 (after (startAnimation ''jump'' (Some twice) demo_view))))"
proof -
  have n: "opt_iterations twice = Some (int 2)" and l: "\<not> truthy_bool (opt_loop twice)"
    by (simp_all add: twice_def truthy_bool_def)
  have two: "1 \<le> (2::nat)" and small: "int 2 \<le> 2 ^ 53" by simp_all
  have d: "truthy_str (defaultAnimation (opts demo_view)) = Some ''idle''"
    by (simp add: truthy_str_def demo_view_def demo_config_def no_config_def)
  have i: "invoked demo_view = []" and cb: "callbacks_of (opt_callback twice) = [Completed 7]"
    by (simp_all add: demo_view_def callbacks_of_def twice_def)
  from transient_iterations [OF demo_ctx demo_handlers demo_found n two small l]
    demo_default_found
  obtain v1 where start: "startAnimation ''jump'' (Some twice) demo_view = Ok v1"
    and waiting: "\<forall>k<2. \<exists>w ck. completions k v1 = Ok w \<and> \<not> isOnDefault w \<and>
                currentAnimationOpts w =
                  Some \<lparr> iterations = int 2 - int k, callback = opt_callback twice,
                         eventCallback = opt_eventCallback twice, req_loop = False,
                         animationName = ''jump'' \<rparr> \<and>
                invoked w = invoked demo_view \<and> ctx w = Some ck \<and>
                calls (state ck) =
                  calls (state demo_context) @ replicate (Suc k) (SetAnimation 0 ''jump'' False)"
    and fin: "\<exists>w cw. completions 2 v1 = Ok w \<and>
                invoked w = invoked demo_view @ callbacks_of (opt_callback twice) \<and>
                currentAnimationOpts w = None \<and> isOnDefault w \<and> ctx w = Some cw \<and>
                (case truthy_str (defaultAnimation (opts demo_view)) of
                   Some dn \<Rightarrow> isPlaying w \<and> visible w \<and>
                     (\<exists>dl. calls (state cw) =
                        calls (state demo_context) @ replicate 2 (SetAnimation 0 ''jump'' False) @
                          [SetAnimation 0 dn dl])
                 | None \<Rightarrow> \<not> isPlaying w \<and> \<not> visible w \<and>
                     calls (state cw) =
                       calls (state demo_context) @ replicate 2 (SetAnimation 0 ''jump'' False))"
    and later: "\<forall>m. invoked (after (completions (2 + m) v1)) =
                  invoked demo_view @ callbacks_of (opt_callback twice)"
    by blast
  have "(1::nat) < 2" by simp
  with waiting have "\<exists>w. completions 1 v1 = Ok w \<and> invoked w = invoked demo_view"
    by blast
  then have one: "invoked (after (completions 1 v1)) = []"
    using i by auto
  from fin d i cb have last: "invoked (after (completions 2 v1)) = [Completed 7] \<and>
     isOnDefault (after (completions 2 v1)) \<and> isPlaying (after (completions 2 v1)) \<and>
     visible (after (completions 2 v1))"
    by auto
  from later have "invoked (after (completions (2 + 3) v1)) =
                  invoked demo_view @ callbacks_of (opt_callback twice)" by blast
  then have five: "invoked (after (completions 5 v1)) = [Completed 7]"
    using i cb by simp
  have idle: "findAnimation (skeletonData demo_context) ''idle'' \<noteq> None"
    by (simp add: findAnimation_def demo_context_def demo_data_def)
  from start one last five n l small d idle demo_ctx demo_handlers demo_found
  show ?thesis
    by simp
qed

section \<open>Invariant of the playback state\<close>

lemma startAnimation_frame:
  "invoked (after (startAnimation name os v)) = invoked v \<and>
   opts (after (startAnimation name os v)) = opts v \<and>
   (after (startAnimation name os v) = v \<or>
    (\<not> isOnDefault (after (startAnimation name os v)) \<and>
     currentAnimationOpts (after (startAnimation name os v)) =
       Some (new_request name (case os of Some p \<Rightarrow> or_bool (opt_loop p) False | None \<Rightarrow> False) os)))"
  by (auto simp: startAnimation_def Let_def split: option.splits)

lemma resetAnimation_frame:
  "invoked (after (resetAnimation v)) = invoked v \<and>
   opts (after (resetAnimation v)) = opts v \<and>
   (after (resetAnimation v) = v \<or>
    (isOnDefault (after (resetAnimation v)) \<and> currentAnimationOpts (after (resetAnimation v)) = None))"
  by (auto simp: resetAnimation_def stopAnimation_def split: option.splits)

lemma resetAllAnimations_frame:
  "invoked (after (resetAllAnimations env newOpts v)) = invoked v \<and>
   opts (after (resetAllAnimations env newOpts v)) = opts v \<and>
   visible (after (resetAllAnimations env newOpts v)) = visible v \<and>
   ((isOnDefault (after (resetAllAnimations env newOpts v)) = isOnDefault v \<and>
     currentAnimationOpts (after (resetAllAnimations env newOpts v)) = currentAnimationOpts v) \<or>
    (isOnDefault (after (resetAllAnimations env newOpts v)) \<and>
     currentAnimationOpts (after (resetAllAnimations env newOpts v)) = None))"
  by (auto simp: resetAllAnimations_def reset_with_def Let_def finish_reset_def
      split: sum.splits option.splits)

lemma present_frame:
  "invoked (after (present env v)) = invoked v \<and>
   opts (after (present env v)) = opts v \<and>
   isOnDefault (after (present env v)) = isOnDefault v \<and>
   currentAnimationOpts (after (present env v)) = currentAnimationOpts v"
  by (auto simp: present_def Let_def split: option.splits)

lemma tick_frame:
  "invoked (after (tick env dt v)) = invoked v \<and>
   opts (after (tick env dt v)) = opts v \<and>
   isOnDefault (after (tick env dt v)) = isOnDefault v \<and>
   currentAnimationOpts (after (tick env dt v)) = currentAnimationOpts v"
  using present_frame [of env v]
    present_frame [of env "v\<lparr>ctx := Some (apply_state env (update (dt * (0.001 * 30 / frameRate v)) (the (ctx v))))\<rparr>"]
  by (auto simp: tick_def split: option.splits)

lemma onComplete_cases:
  "onComplete v = Ok v \<or> onComplete v = resetAnimation v \<or>
   (\<exists>r. currentAnimationOpts v = Some r \<and> \<not> isOnDefault v \<and>
      (onComplete v =
         resetAnimation (call_callback (r\<lparr>iterations := js_dec (iterations r)\<rparr>)
           (v\<lparr>currentAnimationOpts := Some (r\<lparr>iterations := js_dec (iterations r)\<rparr>)\<rparr>)) \<or>
       (\<exists>e. onComplete v =
         Raised e (v\<lparr>currentAnimationOpts := Some (r\<lparr>iterations := js_dec (iterations r)\<rparr>)\<rparr>)) \<or>
       (\<exists>c. onComplete v =
         Ok (v\<lparr>currentAnimationOpts := Some (r\<lparr>iterations := js_dec (iterations r)\<rparr>),
               ctx := Some c\<rparr>))))"
proof (cases "ctx v")
  case None
  then show ?thesis by (simp add: onComplete_def)
next
  case (Some c)
  show ?thesis
  proof (cases "handlers (state c) \<and> \<not> isOnDefault v")
    case False
    with Some show ?thesis by (auto simp: onComplete_def)
  next
    case True
    show ?thesis
    proof (cases "currentAnimationOpts v")
      case None
      with Some True show ?thesis by (simp add: onComplete_def)
    next
      case (Some r)
      note r = this
      show ?thesis
      proof (cases "req_loop r")
        case True
        with \<open>ctx v = Some c\<close> \<open>handlers (state c) \<and> \<not> isOnDefault v\<close> r show ?thesis
          by (simp add: onComplete_def)
      next
        case False
        show ?thesis
        proof (cases "js_dec (iterations r) \<le> 0")
          case True
          with \<open>ctx v = Some c\<close> \<open>handlers (state c) \<and> \<not> isOnDefault v\<close> r \<open>\<not> req_loop r\<close>
          show ?thesis by (simp add: onComplete_def Let_def)
        next
          case False
          have "(\<exists>e. onComplete v =
               Raised e (v\<lparr>currentAnimationOpts := Some (r\<lparr>iterations := js_dec (iterations r)\<rparr>)\<rparr>)) \<or>
             (\<exists>c. onComplete v =
               Ok (v\<lparr>currentAnimationOpts := Some (r\<lparr>iterations := js_dec (iterations r)\<rparr>),
                     ctx := Some c\<rparr>))"
          proof (cases "setAnimationByName c 0 (animationName r) False")
            case None
            with \<open>ctx v = Some c\<close> \<open>handlers (state c) \<and> \<not> isOnDefault v\<close> r
              \<open>\<not> req_loop r\<close> False
            have "onComplete v = Raised (AnimationNotFound (animationName r))
                (v\<lparr>currentAnimationOpts := Some (r\<lparr>iterations := js_dec (iterations r)\<rparr>)\<rparr>)"
              by (simp add: onComplete_def Let_def)
            then show ?thesis by blast
          next
            case (Some a)
            with \<open>ctx v = Some c\<close> \<open>handlers (state c) \<and> \<not> isOnDefault v\<close> r
              \<open>\<not> req_loop r\<close> False
            have "onComplete v =
                Ok (v\<lparr>currentAnimationOpts := Some (r\<lparr>iterations := js_dec (iterations r)\<rparr>),
                      ctx := Some a\<rparr>)"
              by (simp add: onComplete_def Let_def)
            then show ?thesis by blast
          qed
          with r \<open>handlers (state c) \<and> \<not> isOnDefault v\<close> show ?thesis by blast
        qed
      qed
    qed
  qed
qed

lemma call_callback_frame:
  "opts (call_callback r v) = opts v \<and> isOnDefault (call_callback r v) = isOnDefault v \<and>
   currentAnimationOpts (call_callback r v) = currentAnimationOpts v \<and>
   invoked (call_callback r v) = invoked v @ callbacks_of (callback r)"
  by (simp add: call_callback_def callbacks_of_def split: option.splits)

lemma onComplete_frame:
  "opts (after (onComplete v)) = opts v \<and>
   (after (onComplete v) = v \<or>
    (isOnDefault (after (onComplete v)) \<and> currentAnimationOpts (after (onComplete v)) = None) \<or>
    (\<exists>r. currentAnimationOpts v = Some r \<and> \<not> isOnDefault v \<and>
         \<not> isOnDefault (after (onComplete v)) \<and>
         currentAnimationOpts (after (onComplete v)) = Some (r\<lparr>iterations := js_dec (iterations r)\<rparr>)))"
proof -
  consider (same) "onComplete v = Ok v" | (reset) "onComplete v = resetAnimation v"
    | (last) r where "currentAnimationOpts v = Some r" "\<not> isOnDefault v"
        "onComplete v =
         resetAnimation (call_callback (r\<lparr>iterations := js_dec (iterations r)\<rparr>)
           (v\<lparr>currentAnimationOpts := Some (r\<lparr>iterations := js_dec (iterations r)\<rparr>)\<rparr>))"
    | (raised) r e where "currentAnimationOpts v = Some r" "\<not> isOnDefault v"
        "onComplete v =
         Raised e (v\<lparr>currentAnimationOpts := Some (r\<lparr>iterations := js_dec (iterations r)\<rparr>)\<rparr>)"
    | (rearm) r c where "currentAnimationOpts v = Some r" "\<not> isOnDefault v"
        "onComplete v =
         Ok (v\<lparr>currentAnimationOpts := Some (r\<lparr>iterations := js_dec (iterations r)\<rparr>),
               ctx := Some c\<rparr>)"
    using onComplete_cases [of v] by blast
  then show ?thesis
  proof cases
    case same
    then show ?thesis by simp
  next
    case reset
    with resetAnimation_frame [of v] show ?thesis by auto
  next
    case (last r)
    let ?u = "call_callback (r\<lparr>iterations := js_dec (iterations r)\<rparr>)
           (v\<lparr>currentAnimationOpts := Some (r\<lparr>iterations := js_dec (iterations r)\<rparr>)\<rparr>)"
    have u: "opts ?u = opts v" "isOnDefault ?u = isOnDefault v"
      "currentAnimationOpts ?u = Some (r\<lparr>iterations := js_dec (iterations r)\<rparr>)"
      by (simp_all add: call_callback_frame)
    from resetAnimation_frame [of ?u]
    have "opts (after (resetAnimation ?u)) = opts ?u"
      and "after (resetAnimation ?u) = ?u \<or>
        (isOnDefault (after (resetAnimation ?u)) \<and> currentAnimationOpts (after (resetAnimation ?u)) = None)"
      by blast+
    with last u show ?thesis by auto
  next
    case (raised r e)
    then show ?thesis by simp
  next
    case (rearm r c)
    then show ?thesis by simp
  qed
qed

lemma onComplete_invoked:
  "invoked (after (onComplete v)) = invoked v \<or>
   (\<exists>r f. currentAnimationOpts v = Some r \<and> callback r = Some f \<and>
      invoked (after (onComplete v)) = invoked v @ [Completed f])"
proof -
  consider (same) "onComplete v = Ok v" | (reset) "onComplete v = resetAnimation v"
    | (last) r where "currentAnimationOpts v = Some r" "\<not> isOnDefault v"
        "onComplete v =
         resetAnimation (call_callback (r\<lparr>iterations := js_dec (iterations r)\<rparr>)
           (v\<lparr>currentAnimationOpts := Some (r\<lparr>iterations := js_dec (iterations r)\<rparr>)\<rparr>))"
    | (raised) r e where "currentAnimationOpts v = Some r" "\<not> isOnDefault v"
        "onComplete v =
         Raised e (v\<lparr>currentAnimationOpts := Some (r\<lparr>iterations := js_dec (iterations r)\<rparr>)\<rparr>)"
    | (rearm) r c where "currentAnimationOpts v = Some r" "\<not> isOnDefault v"
        "onComplete v =
         Ok (v\<lparr>currentAnimationOpts := Some (r\<lparr>iterations := js_dec (iterations r)\<rparr>),
               ctx := Some c\<rparr>)"
    using onComplete_cases [of v] by blast
  then show ?thesis
  proof cases
    case same
    then show ?thesis by simp
  next
    case reset
    with resetAnimation_frame [of v] show ?thesis by simp
  next
    case (last r)
    let ?u = "call_callback (r\<lparr>iterations := js_dec (iterations r)\<rparr>)
           (v\<lparr>currentAnimationOpts := Some (r\<lparr>iterations := js_dec (iterations r)\<rparr>)\<rparr>)"
    have "invoked (after (resetAnimation ?u)) = invoked ?u"
      using resetAnimation_frame [of ?u] by blast
    with last show ?thesis
      by (cases "callback r") (simp_all add: call_callback_frame callbacks_of_def)
  next
    case (raised r e)
    then show ?thesis by simp
  next
    case (rearm r c)
    then show ?thesis by simp
  qed
qed

lemma onEvent_frame:
  "opts (onEvent d v) = opts v \<and> isOnDefault (onEvent d v) = isOnDefault v \<and>
   currentAnimationOpts (onEvent d v) = currentAnimationOpts v \<and>
   (invoked (onEvent d v) = invoked v \<or> (\<exists>f. invoked (onEvent d v) = invoked v @ [Event f d]))"
  by (auto simp: onEvent_def split: option.splits)

lemma step_invariant:
  assumes "request_only_transient v"
  shows "request_only_transient (after (step env x v))"
proof (cases x)
  case (StartAnimation name os)
  with assms startAnimation_frame [of name os v] show ?thesis
    by (auto simp: request_only_transient_def)
next
  case ResetAnimation
  with assms resetAnimation_frame [of v] show ?thesis
    by (auto simp: request_only_transient_def)
next
  case (ResetAllAnimations newOpts)
  with assms resetAllAnimations_frame [of env newOpts v] show ?thesis
    by (auto simp: request_only_transient_def)
next
  case OnComplete
  with assms onComplete_frame [of v] show ?thesis
    by (auto simp: request_only_transient_def)
next
  case (OnEvent d)
  with assms onEvent_frame [of d v] show ?thesis
    by (auto simp: request_only_transient_def)
next
  case (Tick dt)
  with assms tick_frame [of env dt v] show ?thesis
    by (auto simp: request_only_transient_def)
qed (use assms in \<open>auto simp: request_only_transient_def stopAnimation_def setFramerate_def
      pause_def resume_def\<close>)

lemma run_invariant:
  "request_only_transient v \<Longrightarrow> request_only_transient (run env xs v)"
  by (induction xs arbitrary: v) (auto simp: step_invariant)

text \<open>
  C8: every call on the view (the public operations, the engine's notifications and the
  tick), also one that throws, keeps the invariant that a transient request is stored
  only while isOnDefault is false; it holds from the construction on, and under it at
  most one of the three playback states holds.
\<close>

theorem request_only_when_transient:
  "(request_only_transient v \<longrightarrow> request_only_transient (after (step env x v))) \<and>
   request_only_transient (run env xs (blank os vis)) \<and>
   (request_only_transient v \<longrightarrow>
      \<not> (transient_request v \<and> default_animation v) \<and>
      \<not> (transient_request v \<and> no_animation v) \<and>
      \<not> (default_animation v \<and> no_animation v))"
proof (intro conjI impI)
  assume "request_only_transient v"
  then show "request_only_transient (after (step env x v))" by (rule step_invariant)
next
  have "request_only_transient (blank os vis)"
    by (simp add: request_only_transient_def blank_def)
  then show "request_only_transient (run env xs (blank os vis))" by (rule run_invariant)
next
  assume "request_only_transient v"
  then show "\<not> (transient_request v \<and> default_animation v)"
    by (auto simp: request_only_transient_def transient_request_def default_animation_def)
next
  assume "request_only_transient v"
  then show "\<not> (transient_request v \<and> no_animation v)"
    by (auto simp: request_only_transient_def transient_request_def no_animation_def)
next
  show "\<not> (default_animation v \<and> no_animation v)"
    by (auto simp: default_animation_def no_animation_def)
qed

theorem request_only_when_transient_witness:
  "request_only_transient demo_view \<and>
   request_only_transient (after (step demo_env (StartAnimation ''jump'' (Some twice)) demo_view)) \<and>
   transient_request (after (step demo_env (StartAnimation ''jump'' (Some twice)) demo_view)) \<and>
   \<not> default_animation (after (step demo_env (StartAnimation ''jump'' (Some twice)) demo_view)) \<and>
   \<not> no_animation (after (step demo_env (StartAnimation ''jump'' (Some twice)) demo_view)) \<and>
   request_only_transient
     (run demo_env [ResetAllAnimations None, StartAnimation ''jump'' None, OnComplete]
        (blank demo_config True))"
proof -
  let ?w = "after (step demo_env (StartAnimation ''jump'' (Some twice)) demo_view)"
  have i: "request_only_transient demo_view"
    by (simp add: request_only_transient_def demo_view_def)
  have t: "transient_request ?w"
    by (simp add: transient_request_def play_defs js_defs demo_defs twice_def)
  from request_only_when_transient
    [of demo_view demo_env "StartAnimation ''jump'' (Some twice)"
       "[ResetAllAnimations None, StartAnimation ''jump'' None, OnComplete]" demo_config True] i
  have a: "request_only_transient ?w"
    and b: "request_only_transient
     (run demo_env [ResetAllAnimations None, StartAnimation ''jump'' None, OnComplete]
        (blank demo_config True))"
    by blast+
  from request_only_when_transient [of ?w demo_env Pause "[]" demo_config True] a t
  have "\<not> default_animation ?w \<and> \<not> no_animation ?w"
    by blast
  with i a b t show ?thesis by blast
qed

lemma step_abandoned:
  assumes nc: "\<not> carries cb v" and nu: "\<not> uses_callback cb x"
  shows "\<not> carries cb (after (step env x v)) \<and>
         (\<exists>extra. invoked (after (step env x v)) = invoked v @ extra \<and> Completed cb \<notin> set extra)"
proof (cases x)
  case (StartAnimation name os)
  with nc nu startAnimation_frame [of name os v] show ?thesis
    by (cases os) (auto simp: carries_def new_request_def)
next
  case ResetAnimation
  with nc resetAnimation_frame [of v] show ?thesis
    by (auto simp: carries_def)
next
  case (ResetAllAnimations newOpts)
  with nc resetAllAnimations_frame [of env newOpts v] show ?thesis
    by (auto simp: carries_def)
next
  case OnComplete
  with nc onComplete_frame [of v] onComplete_invoked [of v] show ?thesis
    by (auto simp: carries_def)
next
  case (OnEvent d)
  with nc onEvent_frame [of d v] show ?thesis
    by (auto simp: carries_def)
next
  case (Tick dt)
  with nc tick_frame [of env dt v] show ?thesis
    by (auto simp: carries_def)
qed (use nc in \<open>auto simp: carries_def stopAnimation_def setFramerate_def pause_def resume_def\<close>)

lemma run_abandoned:
  assumes "\<not> carries cb v" and "\<forall>x \<in> set xs. \<not> uses_callback cb x"
  shows "\<exists>extra. invoked (run env xs v) = invoked v @ extra \<and> Completed cb \<notin> set extra"
  using assms
proof (induction xs arbitrary: v)
  case Nil
  show ?case by simp
next
  case (Cons x xs)
  from Cons.prems have x: "\<not> uses_callback cb x" and xs: "\<forall>y \<in> set xs. \<not> uses_callback cb y"
    by simp_all
  from step_abandoned [OF Cons.prems(1) x, of env] obtain e1 where
    s: "\<not> carries cb (after (step env x v))"
      "invoked (after (step env x v)) = invoked v @ e1" "Completed cb \<notin> set e1"
    by blast
  from Cons.IH [OF s(1) xs] obtain e2 where
    "invoked (run env xs (after (step env x v))) = invoked (after (step env x v)) @ e2"
    "Completed cb \<notin> set e2" by blast
  with s show ?case
    by (intro exI [of _ "e1 @ e2"]) simp
qed

text \<open>
  C6: a startAnimation that overwrites a request in flight calls no callback itself and
  stores a request made of its own arguments alone: its name, its iterations (default
  1), its callbacks. From then on the completion callback of the overwritten request is
  not called again, whatever calls follow, as long as none of them hands the same
  callback to the view anew.
\<close>

theorem abandoned_callback_never_invoked:
  assumes first: "startAnimation n1 (Some p1) v = Ok v1" "opt_callback p1 = Some cb"
    and second: "startAnimation n2 os2 (run env mid v1) = Ok v2"
      "\<not> uses_callback cb (StartAnimation n2 os2)"
    and later: "\<forall>x \<in> set xs. \<not> uses_callback cb x"
  shows "carries cb v1 \<and>
         invoked v2 = invoked (run env mid v1) \<and>
         \<not> isOnDefault v2 \<and>
         currentAnimationOpts v2 =
           Some \<lparr> iterations = (case os2 of Some p \<Rightarrow> or_int (opt_iterations p) 1 | None \<Rightarrow> 1),
                  callback = (case os2 of Some p \<Rightarrow> opt_callback p | None \<Rightarrow> None),
                  eventCallback = (case os2 of Some p \<Rightarrow> opt_eventCallback p | None \<Rightarrow> None),
                  req_loop = (case os2 of Some p \<Rightarrow> or_bool (opt_loop p) False | None \<Rightarrow> False),
                  animationName = n2 \<rparr> \<and>
         \<not> carries cb v2 \<and>
         (\<exists>extra. invoked (run env xs v2) = invoked v2 @ extra \<and> Completed cb \<notin> set extra)"
proof -
  from first have "carries cb v1"
    by (auto simp: startAnimation_def Let_def carries_def new_request_def split: option.splits)
  moreover from second(1) have "invoked v2 = invoked (run env mid v1)"
    using startAnimation_frame [of n2 os2 "run env mid v1"] by simp
  moreover from second(1) have "\<not> isOnDefault v2 \<and>
         currentAnimationOpts v2 =
           Some \<lparr> iterations = (case os2 of Some p \<Rightarrow> or_int (opt_iterations p) 1 | None \<Rightarrow> 1),
                  callback = (case os2 of Some p \<Rightarrow> opt_callback p | None \<Rightarrow> None),
                  eventCallback = (case os2 of Some p \<Rightarrow> opt_eventCallback p | None \<Rightarrow> None),
                  req_loop = (case os2 of Some p \<Rightarrow> or_bool (opt_loop p) False | None \<Rightarrow> False),
                  animationName = n2 \<rparr>"
    by (cases os2)
      (auto simp: startAnimation_def Let_def new_request_def split: option.splits)
  moreover from second have nc: "\<not> carries cb v2"
    by (cases os2)
      (auto simp: startAnimation_def Let_def carries_def new_request_def split: option.splits)
  moreover from run_abandoned [OF nc later]
  have "\<exists>extra. invoked (run env xs v2) = invoked v2 @ extra \<and> Completed cb \<notin> set extra" .
  ultimately show ?thesis by blast
qed

theorem abandoned_callback_never_invoked_witness:
  "startAnimation ''jump'' (Some twice) demo_view = Ok (after (startAnimation ''jump'' (Some twice) demo_view)) \<and>
   opt_callback twice = Some 7 \<and>
   carries 7 (after (startAnimation ''jump'' (Some twice) demo_view)) \<and>
   is_ok (startAnimation ''blink'' None
            (run demo_env [OnComplete] (after (startAnimation ''jump'' (Some twice) demo_view)))) \<and>
   map_option iterations (currentAnimationOpts
     (after (startAnimation ''blink'' None
            (run demo_env [OnComplete] (after (startAnimation ''jump'' (Some twice) demo_view)))))) =
     Some 1 \<and>
   invoked (after (startAnimation ''blink'' None
            (run demo_env [OnComplete] (after (startAnimation ''jump'' (Some twice) demo_view))))) = [] \<and>
   Completed 7 \<notin> set (invoked
     (run demo_env [OnComplete, OnEvent 3, Tick 16, OnComplete]
        (after (startAnimation ''blink'' None
            (run demo_env [OnComplete] (after (startAnimation ''jump'' (Some twice) demo_view)))))))"
proof -
  let ?v1 = "after (startAnimation ''jump'' (Some twice) demo_view)"
  let ?v2 = "after (startAnimation ''blink'' None (run demo_env [OnComplete] ?v1))"
  let ?xs = "[OnComplete, OnEvent 3, Tick 16, OnComplete]"
  have first: "startAnimation ''jump'' (Some twice) demo_view = Ok ?v1"
    by (simp add: play_defs js_defs demo_defs)
  have cb: "opt_callback twice = Some 7"
    by (simp add: twice_def)
  have second: "startAnimation ''blink'' None (run demo_env [OnComplete] ?v1) = Ok ?v2"
    by (simp add: play_defs js_defs demo_defs twice_def Let_def)
  have other: "\<not> uses_callback 7 (StartAnimation ''blink'' None)"
    by simp
  have later: "\<forall>x \<in> set ?xs. \<not> uses_callback 7 x"
    by simp
  have mid: "invoked (run demo_env [OnComplete] ?v1) = []"
    by (simp add: play_defs js_defs demo_defs twice_def Let_def)
  have ok2: "is_ok (startAnimation ''blink'' None (run demo_env [OnComplete] ?v1))"
    by (simp add: play_defs js_defs demo_defs twice_def Let_def)
  note th = abandoned_callback_never_invoked [OF first cb second other later]
  from th have c1: "carries 7 ?v1"
    by (rule conjunct1)
  from th have same: "invoked ?v2 = invoked (run demo_env [OnComplete] ?v1)"
    by simp
  from th have own: "currentAnimationOpts ?v2 =
      Some \<lparr> iterations = 1, callback = None, eventCallback = None, req_loop = False,
             animationName = ''blink'' \<rparr>"
    by simp
  from th have ex: "\<exists>extra. invoked (run demo_env ?xs ?v2) = invoked ?v2 @ extra \<and>
      Completed 7 \<notin> set extra"
    by blast
  from same mid have before: "invoked ?v2 = []" by simp
  from own have its: "map_option iterations (currentAnimationOpts ?v2) = Some 1" by simp
  from before ex
  have nc: "Completed 7 \<notin> set (invoked (run demo_env ?xs ?v2))"
    by auto
  from first cb c1 ok2 its before nc show ?thesis
    by blast
qed

section \<open>Initialisation and the default animation\<close>

lemma armed_in_snoc: "armed_in t (cs @ [SetAnimation t n l]) = Some (n, l)"
  by (induction cs rule: armed_in.induct) auto

text \<open>
  C2 asks that a default animation configured with loop = false be armed not looping.
  The code arms it with \<^verbatim>\<open>loop || true\<close>, which is true whatever the flag: with
  defaultAnimation = idle and loop = false, both the constructor and resetAnimation arm
  idle looping.
\<close>

theorem default_loop_false_armed_looping:
  "loop nonloop_config = Some False \<and>
   armed_of (after (init demo_env nonloop_config True)) = Some (''idle'', True) \<and>
   armed_of (after (resetAnimation (after (init demo_env nonloop_config True)))) =
     Some (''idle'', True)"
  by (simp add: init_defs resetAnimation_def armed_of_def armed_def js_defs demo_defs
      nonloop_config_def)

text \<open>
  C9, as stated, fails: resetAllAnimations does not touch the view's visibility. Without
  autoStart, a view that was showing an animation stays visible; with autoStart, a view
  built hidden plays its default animation and stays hidden.
\<close>

theorem resetAllAnimations_visibility_counterexample:
  "autoStart (merged None busy_view) = None \<and>
   is_ok (resetAllAnimations demo_env None busy_view) \<and>
   \<not> isPlaying (after (resetAllAnimations demo_env None busy_view)) \<and>
   visible (after (resetAllAnimations demo_env None busy_view)) \<and>
   autoStart (merged None (blank demo_config False)) = Some True \<and>
   is_ok (init demo_env demo_config False) \<and>
   isPlaying (after (init demo_env demo_config False)) \<and>
   \<not> visible (after (init demo_env demo_config False))"
  by (simp add: init_defs startAnimation_def busy_view_def quiet_config_def js_defs demo_defs)

lemma reset_with_Ok:
  assumes src: "jsonData env os = Inr j" "truthy_json j"
    and ok: "reset_with env os v = Ok v'"
  shows "\<exists>c w. v' = finish_reset os c w \<and> visible w = visible v \<and>
           calls (state c) =
             (case truthy_str (defaultAnimation os) of
                Some dn \<Rightarrow> [SetAnimation 0 dn (or_bool (loop os) True)]
              | None \<Rightarrow> [])"
proof (cases "truthy_str (defaultAnimation os)")
  case None
  with src ok show ?thesis
    by (simp add: reset_with_def Let_def) force
next
  case (Some dn)
  with src ok show ?thesis
    by (simp add: reset_with_def Let_def setAnimationByName_def split: option.splits)
      force
qed

text \<open>
  C9, amended: after a resetAllAnimations that returns with a resolvable animation
  source, isPlaying is autoStart (false when unset), isOnDefault is true, no transient
  request is stored, the default animation is armed when one is configured, and the
  visibility is what it was before the call. With defaultAnimation idle, loop and
  autoStart on a visible view, the view plays its default animation, visible.
\<close>

theorem resetAllAnimations_playback:
  assumes src: "jsonData env (merged newOpts v) = Inr j" "truthy_json j"
    and ok: "resetAllAnimations env newOpts v = Ok v'"
  shows "isPlaying v' = truthy_bool (autoStart (merged newOpts v)) \<and>
         isOnDefault v' \<and> currentAnimationOpts v' = None \<and> visible v' = visible v \<and>
         (case truthy_str (defaultAnimation (merged newOpts v)) of
            Some dn \<Rightarrow> \<exists>l. armed_of v' = Some (dn, l)
          | None \<Rightarrow> armed_of v' = None)"
proof -
  from ok have "reset_with env (merged newOpts v) v = Ok v'"
    by (simp add: resetAllAnimations_def)
  from reset_with_Ok [OF src this] obtain c w where
    v': "v' = finish_reset (merged newOpts v) c w"
    and w: "visible w = visible v"
    and cs: "calls (state c) =
             (case truthy_str (defaultAnimation (merged newOpts v)) of
                Some dn \<Rightarrow> [SetAnimation 0 dn (or_bool (loop (merged newOpts v)) True)]
              | None \<Rightarrow> [])"
    by blast
  from v' w have "isPlaying v' = truthy_bool (autoStart (merged newOpts v)) \<and>
         isOnDefault v' \<and> currentAnimationOpts v' = None \<and> visible v' = visible v"
    by (simp add: finish_reset_def or_bool_def)
  moreover from v' cs have "(case truthy_str (defaultAnimation (merged newOpts v)) of
            Some dn \<Rightarrow> \<exists>l. armed_of v' = Some (dn, l)
          | None \<Rightarrow> armed_of v' = None)"
    by (simp add: finish_reset_def armed_of_def armed_def split: option.splits)
  ultimately show ?thesis by blast
qed

theorem resetAllAnimations_playback_witness:
  "jsonData demo_env (merged None (blank demo_config True)) = Inr (JObj []) \<and>
   truthy_json (JObj []) \<and>
   resetAllAnimations demo_env None (blank demo_config True) = Ok demo_view \<and>
   visible (blank demo_config True) \<and>
   isPlaying demo_view \<and> isOnDefault demo_view \<and> currentAnimationOpts demo_view = None \<and>
   visible demo_view \<and> armed_of demo_view = Some (''idle'', True)"
proof -
  have src: "jsonData demo_env (merged None (blank demo_config True)) = Inr (JObj [])"
    by (simp add: jsonData_def merged_def merge_def blank_def js_defs demo_defs)
  have t: "truthy_json (JObj [])" by simp
  have ok: "resetAllAnimations demo_env None (blank demo_config True) = Ok demo_view"
    using init_demo by (simp add: init_def)
  have m: "truthy_bool (autoStart (merged None (blank demo_config True)))"
    "truthy_str (defaultAnimation (merged None (blank demo_config True))) = Some ''idle''"
    "visible (blank demo_config True)"
    by (simp_all add: merged_def merge_def blank_def js_defs demo_config_def no_config_def)
  have a: "armed_of demo_view = Some (''idle'', True)"
    by (simp add: armed_of_def armed_def demo_view_def demo_context_def)
  from resetAllAnimations_playback [OF src t ok] m
  have "isPlaying demo_view \<and> isOnDefault demo_view \<and> currentAnimationOpts demo_view = None \<and>
     visible demo_view"
    by simp
  with src t ok m a show ?thesis by blast
qed

section \<open>The stored options\<close>

lemma step_opts: "opts (after (step env x v)) = opts v"
proof (cases x)
  case (StartAnimation name os)
  with startAnimation_frame [of name os v] show ?thesis by simp
next
  case ResetAnimation
  with resetAnimation_frame [of v] show ?thesis by simp
next
  case (ResetAllAnimations newOpts)
  with resetAllAnimations_frame [of env newOpts v] show ?thesis by simp
next
  case OnComplete
  with onComplete_frame [of v] show ?thesis by simp
next
  case (OnEvent d)
  with onEvent_frame [of d v] show ?thesis by simp
next
  case (Tick dt)
  with tick_frame [of env dt v] show ?thesis by simp
qed (simp_all add: stopAnimation_def setFramerate_def pause_def resume_def)

lemma run_opts: "opts (run env xs v) = opts v"
  by (induction xs arbitrary: v) (simp_all add: step_opts)

lemma resetAnimation_reads:
  "(truthy_str (defaultAnimation (opts w)) = None \<longrightarrow> resetAnimation w = Ok (stopAnimation w)) \<and>
   (\<forall>dn u. truthy_str (defaultAnimation (opts w)) = Some dn \<and> resetAnimation w = Ok u \<longrightarrow>
      (\<exists>l. armed_of u = Some (dn, l)))"
  by (auto simp: resetAnimation_def setAnimationByName_def armed_of_def armed_def armed_in_snoc
      split: option.splits)

lemma onComplete_reads:
  "ctx w = Some c \<Longrightarrow> handlers (state c) \<Longrightarrow> isOnDefault w \<Longrightarrow>
   onComplete w = (if truthy_bool (loop (opts w)) then Ok w else resetAnimation w)"
  by (simp add: onComplete_def)

text \<open>
  C10: resetAllAnimations leaves the stored options (this._opts) as they were, and so
  does every other call. After any run of calls, resetAnimation arms the default
  animation of the construction options, or stops when they name none, and the
  completion handler reads their loop flag, whatever options the run passed to
  resetAllAnimations.
\<close>

theorem construction_options_kept:
  "opts (after (resetAllAnimations env newOpts v)) = opts v \<and>
   opts (run env xs v) = opts v \<and>
   (truthy_str (defaultAnimation (opts v)) = None \<longrightarrow>
      resetAnimation (run env xs v) = Ok (stopAnimation (run env xs v))) \<and>
   (\<forall>dn u. truthy_str (defaultAnimation (opts v)) = Some dn \<and>
           resetAnimation (run env xs v) = Ok u \<longrightarrow>
      (\<exists>l. armed_of u = Some (dn, l))) \<and>
   (\<forall>c. ctx (run env xs v) = Some c \<and> handlers (state c) \<and> isOnDefault (run env xs v) \<longrightarrow>
      onComplete (run env xs v) =
        (if truthy_bool (loop (opts v)) then Ok (run env xs v)
         else resetAnimation (run env xs v)))"
proof -
  have a: "opts (after (resetAllAnimations env newOpts v)) = opts v"
    using resetAllAnimations_frame [of env newOpts v] by simp
  have b: "opts (run env xs v) = opts v" by (rule run_opts)
  from resetAnimation_reads [of "run env xs v"] onComplete_reads [of "run env xs v"] a b
  show ?thesis by simp
qed

theorem construction_options_kept_witness:
  "truthy_str (defaultAnimation (opts (blank quiet_config True))) = None \<and>
   armed_of (run demo_env [ResetAllAnimations (Some demo_config)] (blank quiet_config True)) =
     Some (''idle'', True) \<and>
   opts (run demo_env [ResetAllAnimations (Some demo_config)] (blank quiet_config True)) =
     quiet_config \<and>
   resetAnimation (run demo_env [ResetAllAnimations (Some demo_config)] (blank quiet_config True)) =
     Ok (stopAnimation
           (run demo_env [ResetAllAnimations (Some demo_config)] (blank quiet_config True)))"
proof -
  have n: "truthy_str (defaultAnimation (opts (blank quiet_config True))) = None"
    by (simp add: blank_def quiet_config_def no_config_def truthy_str_def)
  have o: "opts (blank quiet_config True) = quiet_config"
    by (simp add: blank_def)
  have a: "armed_of (run demo_env [ResetAllAnimations (Some demo_config)] (blank quiet_config True)) =
     Some (''idle'', True)"
    by (simp add: init_defs armed_of_def armed_def js_defs demo_defs quiet_config_def)
  from construction_options_kept
    [of demo_env None "blank quiet_config True" "[ResetAllAnimations (Some demo_config)]"] n o a
  show ?thesis by simp
qed

end
